theory Spec2Isabelle
  imports Main "HOL-Library.Word"
begin

unbundle bit_operations_syntax

section \<open>Data model of syncer/dml.go\<close>

text \<open>
  A captured value is Go's \<open>interface{}\<close>. The kinds that \<open>castUnsigned\<close> and
  \<open>columnValue\<close> switch on are constructors; integers are kept as bit patterns of
  their width (Go's \<open>int\<close> and \<open>uint\<close> are taken as 64 bits wide). Floating-point
  values and every kind the switches do not name carry an uninterpreted payload
  \<open>'x\<close>. Go strings and byte slices are both byte sequences, here \<open>string\<close>.
\<close>

datatype 'x val =
    VNil
  | VBool bool
  | VInt "64 word"
  | VInt8 "8 word"
  | VInt16 "16 word"
  | VInt32 "32 word"
  | VInt64 "64 word"
  | VUint "64 word"
  | VUint8 "8 word"
  | VUint16 "16 word"
  | VUint32 "32 word"
  | VUint64 "64 word"
  | VFloat32 'x
  | VFloat64 'x
  | VString string
  | VBytes string
  | VOther 'x

text \<open>
  Modelled from the spec: the declaration of \<open>column\<close> is not part of the source
  at hand. The spec's data model gives a column a name, an ordinal position (the index
  into row-value sequences, hence a natural number), a declared type name, an unsigned
  flag and a not-null flag; the field names are the ones \<open>dml.go\<close> reads.
\<close>

record column =
  idx :: nat
  name :: string
  NotNull :: bool
  unsigned :: bool
  tp :: string

text \<open>A run-time panic of the Go program: an index expression out of range.\<close>

datatype panic = IndexOutOfRange

text \<open>The errors built with \<open>errors.Errorf\<close>, with the two lengths they print.\<close>

datatype error =
    InsertMismatch nat nat
  | UpdateDataMismatch nat nat
  | UpdateColumnsMismatch nat nat
  | DeleteMismatch nat nat

section \<open>Library functions the source calls\<close>

text \<open>
  Two functions of Go's library are not computed here and are taken as they are, as the
  fields of a parameter \<open>lib\<close> of the functions below: \<open>Sprint\<close> is the text
  that \<open>strconv.FormatFloat\<close> and \<open>fmt.Sprintf("%v")\<close> give a value, and
  \<open>ToLower\<close> is \<open>strings.ToLower\<close>, which lowers letters by the Unicode case
  tables.
\<close>

record 'x golib =
  Sprint :: "'x val \<Rightarrow> string"
  ToLower :: "string \<Rightarrow> string"

fun hasPrefix :: "string \<Rightarrow> string \<Rightarrow> bool" where
  "hasPrefix s [] = True"
| "hasPrefix [] (p # ps) = False"
| "hasPrefix (c # cs) (p # ps) = (c = p \<and> hasPrefix cs ps)"

text \<open>\<open>strings.Contains s substr\<close>.\<close>

fun Contains :: "string \<Rightarrow> string \<Rightarrow> bool" where
  "Contains [] sub = hasPrefix [] sub"
| "Contains (c # cs) sub = (hasPrefix (c # cs) sub \<or> Contains cs sub)"

text \<open>\<open>strings.Join\<close>.\<close>

fun Join :: "string list \<Rightarrow> string \<Rightarrow> string" where
  "Join [] sep = []"
| "Join [s] sep = s"
| "Join (s # t # ss) sep = s @ sep @ Join (t # ss) sep"

text \<open>Base-10 text of a natural number and of an integer: \<open>strconv.FormatUint\<close>
  and \<open>strconv.FormatInt\<close> at base 10.\<close>

definition digitChar :: "nat \<Rightarrow> char" where
  "digitChar d = char_of (48 + d)"

fun FormatUint :: "nat \<Rightarrow> string" where
  "FormatUint n = (if n < 10 then [digitChar n] else FormatUint (n div 10) @ [digitChar (n mod 10)])"

declare FormatUint.simps [simp del]

definition FormatInt :: "int \<Rightarrow> string" where
  "FormatInt i = (if i < 0 then CHR ''-'' # FormatUint (nat (- i)) else FormatUint (nat i))"

section \<open>castUnsigned and columnValue\<close>

text \<open>\<open>binary.LittleEndian.PutUint32\<close>: byte \<open>k\<close> of the 4-byte buffer.\<close>

definition PutUint32 :: "32 word \<Rightarrow> nat \<Rightarrow> 8 word" where
  "PutUint32 v k = ucast (drop_bit (8 * k) v)"

definition castUnsigned :: "'x golib \<Rightarrow> 'x val \<Rightarrow> bool \<Rightarrow> string \<Rightarrow> 'x val" where
  "castUnsigned lib data uns t =
     (if \<not> uns then data
      else case data of
          VInt v \<Rightarrow> VUint v
        | VInt8 v \<Rightarrow> VUint8 v
        | VInt16 v \<Rightarrow> VUint16 v
        | VInt32 v \<Rightarrow>
            (if Contains (ToLower lib t) ''mediumint''
             then VUint32 (ucast (PutUint32 v 0) OR push_bit 8 (ucast (PutUint32 v 1))
                             OR push_bit 16 (ucast (PutUint32 v 2)))
             else VUint32 v)
        | VInt64 v \<Rightarrow> VString (FormatUint (unat v))
        | _ \<Rightarrow> data)"

definition columnValue :: "'x golib \<Rightarrow> 'x val \<Rightarrow> bool \<Rightarrow> string \<Rightarrow> string" where
  "columnValue lib v uns t =
     (case castUnsigned lib v uns t of
          VNil \<Rightarrow> ''null''
        | VBool b \<Rightarrow> (if b then ''1'' else ''0'')
        | VInt w \<Rightarrow> FormatInt (sint w)
        | VInt8 w \<Rightarrow> FormatInt (sint w)
        | VInt16 w \<Rightarrow> FormatInt (sint w)
        | VInt32 w \<Rightarrow> FormatInt (sint w)
        | VInt64 w \<Rightarrow> FormatInt (sint w)
        | VUint8 w \<Rightarrow> FormatUint (unat w)
        | VUint16 w \<Rightarrow> FormatUint (unat w)
        | VUint32 w \<Rightarrow> FormatUint (unat w)
        | VUint64 w \<Rightarrow> FormatUint (unat w)
        | VFloat32 f \<Rightarrow> Sprint lib (VFloat32 f)
        | VFloat64 f \<Rightarrow> Sprint lib (VFloat64 f)
        | VString s \<Rightarrow> s
        | VBytes s \<Rightarrow> s
        | VUint w \<Rightarrow> Sprint lib (VUint w)
        | VOther x \<Rightarrow> Sprint lib (VOther x))"

section \<open>Go maps and their iteration order\<close>

text \<open>
  The index catalog is a Go map from index name to column list: a partial function.
  Go leaves the order in which \<open>range\<close> visits a map unspecified, and it may differ
  from one loop to the next. Every \<open>range\<close> over the catalog therefore takes the
  order of the keys it visits as an argument; \<open>rangeOrder m ks\<close> says that \<open>ks\<close>
  is such an order for \<open>m\<close> (every key once). \<open>rangeMap\<close> lists the values in
  the order visited.
\<close>

type_synonym indexMap = "string \<rightharpoonup> column list"

definition rangeOrder :: "('k \<rightharpoonup> 'v) \<Rightarrow> 'k list \<Rightarrow> bool" where
  "rangeOrder m ks = (distinct ks \<and> set ks = dom m)"

definition rangeMap :: "('k \<rightharpoonup> 'v) \<Rightarrow> 'k list \<Rightarrow> 'v list" where
  "rangeMap m ks = List.map_filter m ks"

text \<open>
  The batch generators run several such loops. Each loop is identified by the statement
  it belongs to (\<open>site\<close>) and by the value of the batch loop's counter when it runs; a
  \<open>ranger\<close> gives the key order of each.
\<close>

datatype site = ScanFit | ScanAvailable | ScanKeys | ScanKeysChanged

type_synonym ranger = "site \<Rightarrow> nat \<Rightarrow> string list"

text \<open>A slice that the source may return as \<open>nil\<close> is an option; \<open>len\<close> of
  \<open>nil\<close> is 0.\<close>

fun len :: "'a list option \<Rightarrow> nat" where
  "len None = 0"
| "len (Some xs) = length xs"

section \<open>Clause and key construction\<close>

fun genColumnList :: "column list \<Rightarrow> string" where
  "genColumnList [] = []"
| "genColumnList [c] = ''`'' @ name c @ ''`''"
| "genColumnList (c # d # cs) = ''`'' @ name c @ ''`'' @ '','' @ genColumnList (d # cs)"

definition genColumnPlaceholders :: "nat \<Rightarrow> string" where
  "genColumnPlaceholders n = Join (replicate n ''?'') '',''"

text \<open>\<open>getColumnData\<close> reads \<open>data[column.idx]\<close> for every index column.\<close>

fun getColumnData :: "column list \<Rightarrow> column list \<Rightarrow> 'x val list
    \<Rightarrow> panic + (column list \<times> 'x val list)" where
  "getColumnData columns [] data = Inr ([], [])"
| "getColumnData columns (c # cs) data =
     (if idx c < length data
      then (case getColumnData columns cs data of
              Inl p \<Rightarrow> Inl p
            | Inr (cols, vals) \<Rightarrow> Inr (c # cols, data ! idx c # vals))
      else Inl IndexOutOfRange)"

text \<open>The operator chosen in the loop body of \<open>genWhere\<close>.\<close>

definition kvSplit :: "'x val \<Rightarrow> string" where
  "kvSplit d = (case d of VNil \<Rightarrow> ''IS'' | _ \<Rightarrow> ''='')"

fun genWhere :: "column list \<Rightarrow> 'x val list \<Rightarrow> panic + string" where
  "genWhere [] data = Inr []"
| "genWhere (c # cs) [] = Inl IndexOutOfRange"
| "genWhere (c # cs) (d # ds) =
     (if cs = [] then Inr (''`'' @ name c @ ''` '' @ kvSplit d @ '' ?'')
      else (case genWhere cs ds of
              Inl p \<Rightarrow> Inl p
            | Inr rest \<Rightarrow> Inr (''`'' @ name c @ ''` '' @ kvSplit d @ '' ? AND '' @ rest)))"

fun genKVs :: "column list \<Rightarrow> string" where
  "genKVs [] = []"
| "genKVs (c # cs) =
     (if cs = [] then ''`'' @ name c @ ''` = ?''
      else ''`'' @ name c @ ''` = ?, '' @ genKVs cs)"

text \<open>The loop of \<open>genKeyList\<close> reads \<open>columns[i]\<close> for every position of the
  data.\<close>

fun genKeyValues :: "'x golib \<Rightarrow> column list \<Rightarrow> 'x val list \<Rightarrow> panic + string list" where
  "genKeyValues lib columns [] = Inr []"
| "genKeyValues lib [] (d # ds) = Inl IndexOutOfRange"
| "genKeyValues lib (c # cs) (d # ds) =
     (case genKeyValues lib cs ds of
        Inl p \<Rightarrow> Inl p
      | Inr vs \<Rightarrow> Inr (columnValue lib d (unsigned c) (tp c) # vs))"

definition genKeyList :: "'x golib \<Rightarrow> column list \<Rightarrow> 'x val list \<Rightarrow> panic + string" where
  "genKeyList lib columns dataSeq =
     (case genKeyValues lib columns dataSeq of
        Inl p \<Rightarrow> Inl p
      | Inr vs \<Rightarrow> Inr (Join vs '',''))"

text \<open>The loop of \<open>genMultipleKeys\<close> over the index column lists in the order
  visited.\<close>

fun genKeysLoop :: "'x golib \<Rightarrow> column list \<Rightarrow> 'x val list \<Rightarrow> column list list
    \<Rightarrow> panic + string list" where
  "genKeysLoop lib columns v [] = Inr []"
| "genKeysLoop lib columns v (indexCols # others) =
     (case getColumnData columns indexCols v of
        Inl p \<Rightarrow> Inl p
      | Inr (cols, vals) \<Rightarrow>
          (case genKeyList lib cols vals of
             Inl p \<Rightarrow> Inl p
           | Inr k \<Rightarrow>
               (case genKeysLoop lib columns v others of
                  Inl p \<Rightarrow> Inl p
                | Inr ks \<Rightarrow> Inr (k # ks))))"

definition genMultipleKeys :: "'x golib \<Rightarrow> column list \<Rightarrow> 'x val list \<Rightarrow> indexMap
    \<Rightarrow> string list \<Rightarrow> panic + string list" where
  "genMultipleKeys lib columns v indexColumns order =
     genKeysLoop lib columns v (rangeMap indexColumns order)"

section \<open>Index selection\<close>

text \<open>The inner loop of \<open>getSpecifiedIndexColumn\<close>: the value of the local
  \<open>findFitIndex\<close> after it.\<close>

fun checkIndexCols :: "(column \<Rightarrow> panic + bool) \<Rightarrow> column list \<Rightarrow> panic + bool" where
  "checkIndexCols fn [] = Inr True"
| "checkIndexCols fn (col # cols) =
     (case fn col of
        Inl p \<Rightarrow> Inl p
      | Inr b \<Rightarrow> (if b then Inr False else checkIndexCols fn cols))"

fun scanIndexes :: "(column \<Rightarrow> panic + bool) \<Rightarrow> column list list \<Rightarrow> panic + column list option" where
  "scanIndexes fn [] = Inr None"
| "scanIndexes fn (indexCols # others) =
     (if length indexCols = 0 then scanIndexes fn others
      else (case checkIndexCols fn indexCols of
              Inl p \<Rightarrow> Inl p
            | Inr found \<Rightarrow> (if found then Inr (Some indexCols) else scanIndexes fn others)))"

definition getSpecifiedIndexColumn :: "indexMap \<Rightarrow> string list \<Rightarrow> (column \<Rightarrow> panic + bool)
    \<Rightarrow> panic + column list option" where
  "getSpecifiedIndexColumn indexColumns order fn = scanIndexes fn (rangeMap indexColumns order)"

definition findFitIndex :: "indexMap \<Rightarrow> string list \<Rightarrow> panic + column list option" where
  "findFitIndex indexColumns order =
     (let scan = getSpecifiedIndexColumn indexColumns order (\<lambda>c. Inr (\<not> NotNull c))
      in case indexColumns ''primary'' of
           Some cols \<Rightarrow> (if length cols = 0 then scan else Inr (Some cols))
         | None \<Rightarrow> scan)"

definition getAvailableIndexColumn :: "indexMap \<Rightarrow> string list \<Rightarrow> 'x val list
    \<Rightarrow> panic + column list option" where
  "getAvailableIndexColumn indexColumns order data =
     getSpecifiedIndexColumn indexColumns order
       (\<lambda>c. if idx c < length data then Inr (data ! idx c = VNil) else Inl IndexOutOfRange)"

section \<open>Statements\<close>

definition genDeleteSQL :: "string \<Rightarrow> string \<Rightarrow> 'x val list \<Rightarrow> column list \<Rightarrow> column list option
    \<Rightarrow> panic + (string \<times> 'x val list)" where
  "genDeleteSQL schema table v columns indexColumns =
     (case (if len indexColumns > 0 then getColumnData columns (the indexColumns) v
            else Inr (columns, v)) of
        Inl p \<Rightarrow> Inl p
      | Inr (whereColumns, whereValues) \<Rightarrow>
          (case genWhere whereColumns whereValues of
             Inl p \<Rightarrow> Inl p
           | Inr wh \<Rightarrow>
               Inr (''DELETE FROM `'' @ schema @ ''`.`'' @ table @ ''` WHERE '' @ wh @ '' LIMIT 1;'',
                    whereValues)))"

definition replaceSQL :: "string \<Rightarrow> string \<Rightarrow> column list \<Rightarrow> string" where
  "replaceSQL schema table columns =
     ''REPLACE INTO `'' @ schema @ ''`.`'' @ table @ ''` ('' @ genColumnList columns
       @ '') VALUES ('' @ genColumnPlaceholders (length columns) @ '');''"

text \<open>The loops \<open>for i := range data { value = append(value, castUnsigned(data[i],
  columns[i].unsigned, columns[i].tp)) }\<close>.\<close>

fun castRow :: "'x golib \<Rightarrow> column list \<Rightarrow> 'x val list \<Rightarrow> panic + 'x val list" where
  "castRow lib columns [] = Inr []"
| "castRow lib [] (d # ds) = Inl IndexOutOfRange"
| "castRow lib (c # cs) (d # ds) =
     (case castRow lib cs ds of
        Inl p \<Rightarrow> Inl p
      | Inr vs \<Rightarrow> Inr (castUnsigned lib d (unsigned c) (tp c) # vs))"

text \<open>The loop of \<open>genUpdateSQLs\<close> that fills \<open>updateColumns\<close> and
  \<open>updateValues\<close>: \<open>for j := range oldValues\<close>, reading \<open>columns[j]\<close> and
  \<open>changedValues[j]\<close>.\<close>

fun updateTargets :: "column list \<Rightarrow> 'x val list \<Rightarrow> 'x val list \<Rightarrow> panic + (column list \<times> 'x val list)" where
  "updateTargets columns changedValues [] = Inr ([], [])"
| "updateTargets (c # cs) (v # vs) (ov # ovs) =
     (case updateTargets cs vs ovs of
        Inl p \<Rightarrow> Inl p
      | Inr (ucs, uvs) \<Rightarrow> Inr (c # ucs, v # uvs))"
| "updateTargets columns changedValues (ov # ovs) = Inl IndexOutOfRange"

section \<open>The batch generators\<close>

text \<open>
  One pass of a batch loop either returns the error (\<open>Abort\<close>) or goes on to the next
  row (\<open>Next\<close>) with the value of \<open>defaultIndexColumns\<close> and the triples
  (statement, keys, values) it appended to \<open>sqls\<close>, \<open>keys\<close> and \<open>values\<close>.
  The insert generator has no \<open>defaultIndexColumns\<close>: its passes carry \<open>None\<close>.
\<close>

type_synonym 'x triple = "string \<times> string list \<times> 'x val list"

datatype 'x pass = Abort error | Next "column list option" "'x triple list"

text \<open>What a generator returns: the three slices (\<open>nil\<close> is \<open>None\<close>) and the error.\<close>

type_synonym 'x result =
  "string list option \<times> string list list option \<times> 'x val list list option \<times> error option"

definition insertPass :: "'x golib \<Rightarrow> ranger \<Rightarrow> string \<Rightarrow> string \<Rightarrow> column list \<Rightarrow> indexMap
    \<Rightarrow> nat \<Rightarrow> 'x val list \<Rightarrow> panic + 'x pass" where
  "insertPass lib rng schema table columns indexColumns i data =
     (if length data \<noteq> length columns
      then Inr (Abort (InsertMismatch (length columns) (length data)))
      else case castRow lib columns data of
          Inl p \<Rightarrow> Inl p
        | Inr v \<Rightarrow>
            (case genMultipleKeys lib columns v indexColumns (rng ScanKeys i) of
               Inl p \<Rightarrow> Inl p
             | Inr ks \<Rightarrow> Inr (Next None [(replaceSQL schema table columns, ks, v)])))"

fun genInsertLoop :: "'x golib \<Rightarrow> ranger \<Rightarrow> string \<Rightarrow> string \<Rightarrow> column list \<Rightarrow> indexMap
    \<Rightarrow> nat \<Rightarrow> 'x val list list \<Rightarrow> 'x triple list \<Rightarrow> panic + 'x result" where
  "genInsertLoop lib rng schema table columns indexColumns i [] out =
     Inr (Some (map fst out), Some (map (fst \<circ> snd) out), Some (map (snd \<circ> snd) out), None)"
| "genInsertLoop lib rng schema table columns indexColumns i (data # rest) out =
     (case insertPass lib rng schema table columns indexColumns i data of
        Inl p \<Rightarrow> Inl p
      | Inr (Abort e) \<Rightarrow> Inr (None, None, None, Some e)
      | Inr (Next d new) \<Rightarrow>
          genInsertLoop lib rng schema table columns indexColumns (i + 1) rest (out @ new))"

definition genInsertSQLs :: "'x golib \<Rightarrow> ranger \<Rightarrow> string \<Rightarrow> string \<Rightarrow> 'x val list list
    \<Rightarrow> column list \<Rightarrow> indexMap \<Rightarrow> panic + 'x result" where
  "genInsertSQLs lib rng schema table dataSeq columns indexColumns =
     genInsertLoop lib rng schema table columns indexColumns 0 dataSeq []"

text \<open>\<open>if len(defaultIndexColumns) == 0 { defaultIndexColumns =
  getAvailableIndexColumn(indexColumns, values) }\<close>: the assignment is to the variable
  declared before the batch loop.\<close>

definition fallbackIndex :: "indexMap \<Rightarrow> string list \<Rightarrow> column list option \<Rightarrow> 'x val list
    \<Rightarrow> panic + column list option" where
  "fallbackIndex indexColumns order defaultIndexColumns v =
     (if len defaultIndexColumns = 0 then getAvailableIndexColumn indexColumns order v
      else Inr defaultIndexColumns)"

definition updatePass :: "'x golib \<Rightarrow> ranger \<Rightarrow> string \<Rightarrow> string \<Rightarrow> column list \<Rightarrow> indexMap
    \<Rightarrow> bool \<Rightarrow> nat \<Rightarrow> 'x val list \<Rightarrow> 'x val list \<Rightarrow> column list option \<Rightarrow> panic + 'x pass" where
  "updatePass lib rng schema table columns indexColumns safeMode i oldData changedData dflt =
     (if length oldData \<noteq> length changedData
      then Inr (Abort (UpdateDataMismatch (length oldData) (length changedData)))
      else if length oldData \<noteq> length columns
      then Inr (Abort (UpdateColumnsMismatch (length columns) (length oldData)))
      else case castRow lib columns oldData of Inl p \<Rightarrow> Inl p | Inr oldValues \<Rightarrow>
           case castRow lib columns changedData of Inl p \<Rightarrow> Inl p | Inr changedValues \<Rightarrow>
           case fallbackIndex indexColumns (rng ScanAvailable i) dflt oldValues of
             Inl p \<Rightarrow> Inl p | Inr dflt' \<Rightarrow>
           case genMultipleKeys lib columns oldValues indexColumns (rng ScanKeys i) of
             Inl p \<Rightarrow> Inl p | Inr ksOld \<Rightarrow>
           case genMultipleKeys lib columns changedValues indexColumns (rng ScanKeysChanged i) of
             Inl p \<Rightarrow> Inl p | Inr ksNew \<Rightarrow>
           let ks = ksOld @ ksNew in
           if safeMode
           then (case genDeleteSQL schema table oldValues columns dflt' of
                   Inl p \<Rightarrow> Inl p
                 | Inr (sql, v) \<Rightarrow>
                     Inr (Next dflt' [(sql, ks, v),
                                      (replaceSQL schema table columns, ks, changedValues)]))
           else case updateTargets columns changedValues oldValues of
                  Inl p \<Rightarrow> Inl p
                | Inr (updateColumns, updateValues) \<Rightarrow>
                    if length updateColumns = 0 then Inr (Next dflt' [])
                    else case (if len dflt' > 0 then getColumnData columns (the dflt') oldValues
                               else Inr (columns, oldValues)) of
                           Inl p \<Rightarrow> Inl p
                         | Inr (whereColumns, whereValues) \<Rightarrow>
                             (case genWhere whereColumns whereValues of
                                Inl p \<Rightarrow> Inl p
                              | Inr wh \<Rightarrow>
                                  Inr (Next dflt'
                                    [(''UPDATE `'' @ schema @ ''`.`'' @ table @ ''` SET ''
                                        @ genKVs updateColumns @ '' WHERE '' @ wh @ '' LIMIT 1;'',
                                      ks, updateValues @ whereValues)])))"

fun genUpdateLoop :: "'x golib \<Rightarrow> ranger \<Rightarrow> string \<Rightarrow> string \<Rightarrow> column list \<Rightarrow> indexMap
    \<Rightarrow> bool \<Rightarrow> nat \<Rightarrow> 'x val list list \<Rightarrow> column list option \<Rightarrow> 'x triple list
    \<Rightarrow> panic + 'x result" where
  "genUpdateLoop lib rng schema table columns indexColumns safeMode i [] dflt out =
     Inr (Some (map fst out), Some (map (fst \<circ> snd) out), Some (map (snd \<circ> snd) out), None)"
| "genUpdateLoop lib rng schema table columns indexColumns safeMode i [oldData] dflt out =
     Inl IndexOutOfRange"
| "genUpdateLoop lib rng schema table columns indexColumns safeMode i
       (oldData # changedData # rest) dflt out =
     (case updatePass lib rng schema table columns indexColumns safeMode i oldData changedData dflt of
        Inl p \<Rightarrow> Inl p
      | Inr (Abort e) \<Rightarrow> Inr (None, None, None, Some e)
      | Inr (Next dflt' new) \<Rightarrow>
          genUpdateLoop lib rng schema table columns indexColumns safeMode (i + 2) rest dflt'
            (out @ new))"

definition genUpdateSQLs :: "'x golib \<Rightarrow> ranger \<Rightarrow> string \<Rightarrow> string \<Rightarrow> 'x val list list
    \<Rightarrow> column list \<Rightarrow> indexMap \<Rightarrow> bool \<Rightarrow> panic + 'x result" where
  "genUpdateSQLs lib rng schema table data columns indexColumns safeMode =
     (case findFitIndex indexColumns (rng ScanFit 0) of
        Inl p \<Rightarrow> Inl p
      | Inr defaultIndexColumns \<Rightarrow>
          genUpdateLoop lib rng schema table columns indexColumns safeMode 0 data
            defaultIndexColumns [])"

definition deletePass :: "'x golib \<Rightarrow> ranger \<Rightarrow> string \<Rightarrow> string \<Rightarrow> column list \<Rightarrow> indexMap
    \<Rightarrow> nat \<Rightarrow> 'x val list \<Rightarrow> column list option \<Rightarrow> panic + 'x pass" where
  "deletePass lib rng schema table columns indexColumns i data dflt =
     (if length data \<noteq> length columns
      then Inr (Abort (DeleteMismatch (length columns) (length data)))
      else case castRow lib columns data of Inl p \<Rightarrow> Inl p | Inr v \<Rightarrow>
           case fallbackIndex indexColumns (rng ScanAvailable i) dflt v of
             Inl p \<Rightarrow> Inl p | Inr dflt' \<Rightarrow>
           case genMultipleKeys lib columns v indexColumns (rng ScanKeys i) of
             Inl p \<Rightarrow> Inl p | Inr ks \<Rightarrow>
           case genDeleteSQL schema table v columns dflt' of
             Inl p \<Rightarrow> Inl p
           | Inr (sql, wv) \<Rightarrow> Inr (Next dflt' [(sql, ks, wv)]))"

fun genDeleteLoop :: "'x golib \<Rightarrow> ranger \<Rightarrow> string \<Rightarrow> string \<Rightarrow> column list \<Rightarrow> indexMap
    \<Rightarrow> nat \<Rightarrow> 'x val list list \<Rightarrow> column list option \<Rightarrow> 'x triple list \<Rightarrow> panic + 'x result" where
  "genDeleteLoop lib rng schema table columns indexColumns i [] dflt out =
     Inr (Some (map fst out), Some (map (fst \<circ> snd) out), Some (map (snd \<circ> snd) out), None)"
| "genDeleteLoop lib rng schema table columns indexColumns i (data # rest) dflt out =
     (case deletePass lib rng schema table columns indexColumns i data dflt of
        Inl p \<Rightarrow> Inl p
      | Inr (Abort e) \<Rightarrow> Inr (None, None, None, Some e)
      | Inr (Next dflt' new) \<Rightarrow>
          genDeleteLoop lib rng schema table columns indexColumns (i + 1) rest dflt' (out @ new))"

definition genDeleteSQLs :: "'x golib \<Rightarrow> ranger \<Rightarrow> string \<Rightarrow> string \<Rightarrow> 'x val list list
    \<Rightarrow> column list \<Rightarrow> indexMap \<Rightarrow> panic + 'x result" where
  "genDeleteSQLs lib rng schema table dataSeq columns indexColumns =
     (case findFitIndex indexColumns (rng ScanFit 0) of
        Inl p \<Rightarrow> Inl p
      | Inr defaultIndexColumns \<Rightarrow>
          genDeleteLoop lib rng schema table columns indexColumns 0 dataSeq defaultIndexColumns [])"

section \<open>Predicates and reference forms used in the statements\<close>

text \<open>Every column of every declared index has an ordinal position below \<open>n\<close>.\<close>

definition indexesWithin :: "indexMap \<Rightarrow> nat \<Rightarrow> bool" where
  "indexesWithin m n = (\<forall>k cols. m k = Some cols \<longrightarrow> (\<forall>c\<in>set cols. idx c < n))"

text \<open>The value of \<open>defaultIndexColumns\<close> names positions below \<open>n\<close> only.\<close>

definition defaultWithin :: "column list option \<Rightarrow> nat \<Rightarrow> bool" where
  "defaultWithin d n = (\<forall>cols. d = Some cols \<longrightarrow> (\<forall>c\<in>set cols. idx c < n))"

text \<open>
  A clause as the spec words it, to compare \<open>genWhere\<close> and \<open>genKVs\<close> with: one
  term per column, with the operator IS when the bound value is null and = otherwise,
  the terms joined by a separator.
\<close>

definition specClause :: "string \<Rightarrow> column list \<Rightarrow> 'x val list \<Rightarrow> string" where
  "specClause sep cols vals =
     Join (map2 (\<lambda>c d. ''`'' @ name c @ ''` '' @ (if d = VNil then ''IS'' else ''='') @ '' ?'')
             cols vals) sep"

text \<open>The casted row: \<open>castUnsigned\<close> at every position.\<close>

definition casted :: "'x golib \<Rightarrow> column list \<Rightarrow> 'x val list \<Rightarrow> 'x val list" where
  "casted lib columns data = map2 (\<lambda>c d. castUnsigned lib d (unsigned c) (tp c)) columns data"

text \<open>The number of statements one well-formed update pair appends.\<close>

definition perPair :: "bool \<Rightarrow> column list \<Rightarrow> nat" where
  "perPair safeMode columns = (if safeMode then 2 else if columns = [] then 0 else 1)"

text \<open>The two structural-mismatch errors of the update generator: the lengths of the pair
  disagree, or the length of the before-state disagrees with the column count.\<close>

definition updateMismatch :: "column list \<Rightarrow> error \<Rightarrow> bool" where
  "updateMismatch columns e =
     ((\<exists>a b. e = UpdateDataMismatch a b \<and> a \<noteq> b)
      \<or> (\<exists>b. e = UpdateColumnsMismatch (length columns) b \<and> b \<noteq> length columns))"

section \<open>Example inputs\<close>

text \<open>Inputs for the worked examples. The library of the examples lowers the letters A to
  Z, which is what \<open>strings.ToLower\<close> does on the ASCII type names used here, and
  gives one fixed text to the library-formatted kinds, none of which occurs. A ranger that
  visits the same key order at every loop, the table \<open>t\<close> of the spec's end-to-end
  example, a table with two single-column unique indexes \<open>a\<close> and \<open>b\<close>, once over
  nullable and once over not-null columns, a catalog whose primary index has no column, and
  three rows for the table \<open>t\<close>, the last one too short.\<close>

definition toLowerByte :: "char \<Rightarrow> char" where
  "toLowerByte c =
     (let n = (of_char c :: nat) in if 65 \<le> n \<and> n \<le> 90 then char_of (n + 32) else c)"

definition lowerASCII :: "string \<Rightarrow> string" where
  "lowerASCII s = map toLowerByte s"

definition exampleLib :: "unit golib" where
  "exampleLib = \<lparr>Sprint = (\<lambda>v. ''?''), ToLower = lowerASCII\<rparr>"

definition always :: "string list \<Rightarrow> ranger" where
  "always ks s i = ks"

definition colId :: column where
  "colId = \<lparr>idx = 0, name = ''id'', NotNull = True, unsigned = True, tp = ''int''\<rparr>"

definition colName :: column where
  "colName = \<lparr>idx = 1, name = ''name'', NotNull = False, unsigned = False, tp = ''varchar''\<rparr>"

definition primaryId :: indexMap where
  "primaryId = map_of [(''primary'', [colId])]"

definition colA :: column where
  "colA = \<lparr>idx = 0, name = ''a'', NotNull = False, unsigned = False, tp = ''int''\<rparr>"

definition colB :: column where
  "colB = \<lparr>idx = 1, name = ''b'', NotNull = False, unsigned = False, tp = ''int''\<rparr>"

definition nullableAB :: indexMap where
  "nullableAB = map_of [(''a'', [colA]), (''b'', [colB])]"

definition colU :: column where
  "colU = \<lparr>idx = 0, name = ''u'', NotNull = True, unsigned = False, tp = ''int''\<rparr>"

definition colV :: column where
  "colV = \<lparr>idx = 1, name = ''v'', NotNull = True, unsigned = False, tp = ''int''\<rparr>"

definition notNullUV :: indexMap where
  "notNullUV = map_of [(''a'', [colU]), (''b'', [colV])]"

definition emptyPrimary :: indexMap where
  "emptyPrimary = map_of [(''primary'', []), (''a'', [colU])]"

definition rowAlice :: "unit val list" where
  "rowAlice = [VInt32 5, VString ''alice'']"

definition rowBob :: "unit val list" where
  "rowBob = [VInt32 5, VString ''bob'']"

definition rowShort :: "unit val list" where
  "rowShort = [VInt32 6]"

text \<open>Rows for the table with the indexes \<open>a\<close> and \<open>b\<close>: both columns set,
  only the first, only the second.\<close>

definition rowBoth :: "unit val list" where
  "rowBoth = [VInt32 1, VInt32 2]"

definition rowOnlyA :: "unit val list" where
  "rowOnlyA = [VInt32 1, VNil]"

definition rowOnlyB :: "unit val list" where
  "rowOnlyB = [VNil, VInt32 2]"

section \<open>Substring search\<close>

lemma hasPrefix_iff: "hasPrefix s p \<longleftrightarrow> (\<exists>post. s = p @ post)"
  by (induction s p rule: hasPrefix.induct) auto

lemma Contains_iff: "Contains s sub \<longleftrightarrow> (\<exists>pre post. s = pre @ sub @ post)"
proof (induction s)
  case Nil
  then show ?case by (auto simp: hasPrefix_iff)
next
  case (Cons c cs)
  show ?case
  proof
    assume "Contains (c # cs) sub"
    then consider "hasPrefix (c # cs) sub" | "Contains cs sub" by auto
    then show "\<exists>pre post. c # cs = pre @ sub @ post"
    proof cases
      case 1
      then obtain post where "c # cs = sub @ post" by (auto simp: hasPrefix_iff)
      then have "c # cs = [] @ sub @ post" by simp
      then show ?thesis by blast
    next
      case 2
      with Cons obtain pre post where "cs = pre @ sub @ post" by blast
      then have "c # cs = (c # pre) @ sub @ post" by simp
      then show ?thesis by blast
    qed
  next
    assume "\<exists>pre post. c # cs = pre @ sub @ post"
    then obtain pre post where e: "c # cs = pre @ sub @ post" by blast
    show "Contains (c # cs) sub"
    proof (cases pre)
      case Nil
      with e have "hasPrefix (c # cs) sub" by (auto simp: hasPrefix_iff)
      then show ?thesis by simp
    next
      case (Cons a pre')
      with e have "cs = pre' @ sub @ post" by simp
      with Cons.IH have "Contains cs sub" by blast
      then show ?thesis by simp
    qed
  qed
qed

section \<open>The 24-bit cast\<close>

lemma uint_low24: "uint (take_bit 24 (v :: 32 word)) = sint v mod 2 ^ 24"
proof -
  have "uint (take_bit 24 v) = take_bit 24 (uint v)"
    by (simp add: unsigned_take_bit_eq)
  also have "\<dots> = take_bit 24 (signed_take_bit 31 (uint v))"
    by (simp add: take_bit_signed_take_bit)
  also have "\<dots> = take_bit 24 (sint v)"
    by (simp add: sint_uint)
  finally show ?thesis by (simp add: take_bit_eq_mod)
qed

lemma mediumint_low_bytes:
  "(ucast (PutUint32 v 0) OR push_bit 8 (ucast (PutUint32 v 1))
      OR push_bit 16 (ucast (PutUint32 v 2)) :: 32 word) = take_bit 24 v"
  unfolding PutUint32_def
proof (rule bit_word_eqI)
  fix n assume "n < LENGTH(32)"
  show "bit (ucast (ucast (drop_bit (8 * 0) v) :: 8 word)
              OR push_bit 8 (ucast (ucast (drop_bit (8 * 1) v) :: 8 word))
              OR push_bit 16 (ucast (ucast (drop_bit (8 * 2) v) :: 8 word)) :: 32 word) n
        = bit (take_bit 24 v) n"
    by (cases "n < 8"; cases "n < 16"; cases "n < 24") (auto simp: bit_simps)
qed

text \<open>
  Claim C2. For a column whose unsigned flag is set and whose declared type name contains
  "mediumint" once lowered by \<open>strings.ToLower\<close> (the test of the source, for
  whatever that function does to the name), \<open>castUnsigned\<close> maps every 32-bit signed
  value \<open>v\<close> to the unsigned 32-bit value made of its low three bytes, which is
  \<open>v mod 2^24\<close>. The witness is the value -4692783 of the source's comment, cast to
  12084433 and not to 4290274513.
\<close>

theorem castUnsigned_mediumint:
  assumes "Contains (ToLower lib t) ''mediumint''"
  shows "castUnsigned lib (VInt32 v) True t = VUint32 (take_bit 24 v)
         \<and> uint (take_bit 24 v) = sint v mod 2 ^ 24"
  using assms unfolding castUnsigned_def mediumint_low_bytes by (simp add: uint_low24)

theorem castUnsigned_mediumint_witness:
  "Contains (ToLower exampleLib ''MEDIUMINT(8) unsigned'') ''mediumint''
   \<and> castUnsigned exampleLib (VInt32 (- 4692783)) True ''MEDIUMINT(8) unsigned'' = VUint32 12084433
   \<and> uint (12084433 :: 32 word) = sint (- 4692783 :: 32 word) mod 2 ^ 24
   \<and> (12084433 :: 32 word) \<noteq> 4290274513"
proof -
  have h: "Contains (ToLower exampleLib ''MEDIUMINT(8) unsigned'') ''mediumint''"
    by code_simp
  have e: "take_bit 24 (- 4692783 :: 32 word) = 12084433"
    by code_simp
  from castUnsigned_mediumint [OF h, of "- 4692783"] e
  have "castUnsigned exampleLib (VInt32 (- 4692783)) True ''MEDIUMINT(8) unsigned'' = VUint32 12084433
        \<and> uint (12084433 :: 32 word) = sint (- 4692783 :: 32 word) mod 2 ^ 24"
    by simp
  with h show ?thesis by simp
qed

section \<open>The loops return when the positions are in range\<close>

lemma set_rangeMap: "set (rangeMap m ks) \<subseteq> ran m"
  by (auto simp: rangeMap_def map_filter_def ran_def)

lemma length_rangeMap: "rangeOrder m ks \<Longrightarrow> length (rangeMap m ks) = card (dom m)"
proof -
  assume r: "rangeOrder m ks"
  then have d: "distinct ks" and s: "set ks = dom m"
    by (simp_all add: rangeOrder_def)
  from s have "filter (\<lambda>k. m k \<noteq> None) ks = ks"
    by (auto simp: filter_id_conv)
  then have "length (rangeMap m ks) = length ks"
    by (simp add: rangeMap_def map_filter_def)
  also from d have "\<dots> = card (set ks)"
    by (simp add: distinct_card)
  finally show ?thesis by (simp only: s)
qed

lemma rangeMap_within:
  "indexesWithin m n \<Longrightarrow> cols \<in> set (rangeMap m ks) \<Longrightarrow> c \<in> set cols \<Longrightarrow> idx c < n"
  using set_rangeMap [of m ks] by (auto simp: indexesWithin_def ran_def)

lemma getColumnData_ok:
  "\<forall>c\<in>set ic. idx c < length data \<Longrightarrow>
   getColumnData columns ic data = Inr (ic, map (\<lambda>c. data ! idx c) ic)"
  by (induction ic) auto

lemma getColumnData_returns:
  "getColumnData columns ic data = Inr (cols, vals) \<Longrightarrow>
   cols = ic \<and> vals = map (\<lambda>c. data ! idx c) ic \<and> (\<forall>c\<in>set ic. idx c < length data)"
  by (induction ic arbitrary: cols vals) (auto split: if_splits sum.splits)

lemma kvSplit_eq: "kvSplit d = (if d = VNil then ''IS'' else ''='')"
  by (cases d) (simp_all add: kvSplit_def)

lemma genWhere_refines:
  "length cols \<le> length vals \<Longrightarrow> genWhere cols vals = Inr (specClause '' AND '' cols vals)"
proof (induction cols vals rule: genWhere.induct)
  case (1 data)
  then show ?case by (simp add: specClause_def)
next
  case (2 c cs)
  then show ?case by simp
next
  case (3 c cs d ds)
  show ?case
  proof (cases cs)
    case Nil
    then show ?thesis by (simp add: specClause_def kvSplit_eq)
  next
    case (Cons c' cs')
    with 3 obtain d' ds' where ds: "ds = d' # ds'" by (cases ds) auto
    from 3 Cons have "genWhere cs ds = Inr (specClause '' AND '' cs ds)" by simp
    with Cons ds show ?thesis by (simp add: specClause_def kvSplit_eq)
  qed
qed

lemma genWhere_panics: "length vals < length cols \<Longrightarrow> genWhere cols vals = Inl IndexOutOfRange"
proof (induction cols vals rule: genWhere.induct)
  case (3 c cs d ds)
  then show ?case by (cases cs) (auto split: sum.splits)
qed auto

lemma genKeyValues_ok:
  "length vals \<le> length cols \<Longrightarrow>
   genKeyValues lib cols vals = Inr (map2 (\<lambda>c d. columnValue lib d (unsigned c) (tp c)) cols vals)"
  by (induction lib cols vals rule: genKeyValues.induct) auto

lemma genKeyList_ok:
  "length vals \<le> length cols \<Longrightarrow>
   genKeyList lib cols vals = Inr (Join (map2 (\<lambda>c d. columnValue lib d (unsigned c) (tp c)) cols vals) '','')"
  by (simp add: genKeyList_def genKeyValues_ok)

lemma genKeysLoop_length:
  "genKeysLoop lib columns v css = Inr ks \<Longrightarrow> length ks = length css"
  by (induction css arbitrary: ks) (auto split: sum.splits prod.splits)

lemma genKeysLoop_ok:
  "\<forall>cols\<in>set css. \<forall>c\<in>set cols. idx c < length v \<Longrightarrow>
   \<exists>ks. genKeysLoop lib columns v css = Inr ks"
proof (induction css)
  case Nil
  then show ?case by simp
next
  case (Cons cols css)
  then obtain ks where ks: "genKeysLoop lib columns v css = Inr ks" by auto
  from Cons.prems have g: "getColumnData columns cols v = Inr (cols, map (\<lambda>c. v ! idx c) cols)"
    by (simp add: getColumnData_ok)
  have "length (map (\<lambda>c. v ! idx c) cols) \<le> length cols" by simp
  from genKeyList_ok [OF this] obtain k where
    "genKeyList lib cols (map (\<lambda>c. v ! idx c) cols) = Inr k" by blast
  with g ks show ?case by simp
qed

lemma genMultipleKeys_ok:
  "indexesWithin m (length v) \<Longrightarrow> \<exists>ks. genMultipleKeys lib columns v m order = Inr ks"
  unfolding genMultipleKeys_def
  by (rule genKeysLoop_ok) (auto dest: rangeMap_within)

lemma castRow_ok:
  "length data \<le> length columns \<Longrightarrow>
   castRow lib columns data = Inr (casted lib columns data)"
  by (induction lib columns data rule: castRow.induct) (auto simp: casted_def)

lemma updateTargets_ok:
  "length old \<le> length columns \<Longrightarrow> length old \<le> length changed \<Longrightarrow>
   updateTargets columns changed old = Inr (take (length old) columns, take (length old) changed)"
  by (induction columns changed old rule: updateTargets.induct) auto

lemma checkIndexCols_ok:
  "\<forall>c\<in>set cols. \<exists>b. fn c = Inr b \<Longrightarrow> \<exists>b. checkIndexCols fn cols = Inr b"
  by (induction cols) (auto split: sum.splits)

lemma checkIndexCols_True:
  "checkIndexCols fn cols = Inr True \<longleftrightarrow> (\<forall>c\<in>set cols. fn c = Inr False)"
  by (induction cols) (auto split: sum.splits)

lemma scanIndexes_ok:
  "\<forall>cols\<in>set css. \<forall>c\<in>set cols. \<exists>b. fn c = Inr b \<Longrightarrow> \<exists>r. scanIndexes fn css = Inr r"
proof (induction css)
  case Nil
  then show ?case by simp
next
  case (Cons cols css)
  then have "\<exists>b. checkIndexCols fn cols = Inr b" by (simp add: checkIndexCols_ok)
  with Cons show ?case by (auto split: sum.splits)
qed

lemma scanIndexes_Some:
  "scanIndexes fn css = Inr (Some cols) \<Longrightarrow>
   cols \<in> set css \<and> cols \<noteq> [] \<and> (\<forall>c\<in>set cols. fn c = Inr False)"
  by (induction css) (auto split: sum.splits if_splits simp: checkIndexCols_True)

lemma length_casted: "length data = length columns \<Longrightarrow> length (casted lib columns data) = length columns"
  by (simp add: casted_def)

lemma ran_rangeMap: "rangeOrder m ks \<Longrightarrow> set (rangeMap m ks) = ran m"
proof
  show "set (rangeMap m ks) \<subseteq> ran m" by (rule set_rangeMap)
next
  assume r: "rangeOrder m ks"
  show "ran m \<subseteq> set (rangeMap m ks)"
  proof
    fix v assume "v \<in> ran m"
    then obtain k where k: "m k = Some v" by (auto simp: ran_def)
    with r have "k \<in> set ks" by (auto simp: rangeOrder_def)
    with k show "v \<in> set (rangeMap m ks)"
      by (force simp: rangeMap_def map_filter_def)
  qed
qed

lemma genDeleteSQL_ok:
  assumes "defaultWithin d (length v)" and "length v = length columns"
  shows "genDeleteSQL schema table v columns d =
     Inr (''DELETE FROM `'' @ schema @ ''`.`'' @ table @ ''` WHERE ''
            @ specClause '' AND '' (if len d > 0 then the d else columns)
                (if len d > 0 then map (\<lambda>c. v ! idx c) (the d) else v)
            @ '' LIMIT 1;'',
          if len d > 0 then map (\<lambda>c. v ! idx c) (the d) else v)"
proof (cases "len d > 0")
  case True
  then obtain cols where d: "d = Some cols" by (cases d) auto
  with assms have "getColumnData columns cols v = Inr (cols, map (\<lambda>c. v ! idx c) cols)"
    by (simp add: getColumnData_ok defaultWithin_def)
  moreover have "genWhere cols (map (\<lambda>c. v ! idx c) cols)
      = Inr (specClause '' AND '' cols (map (\<lambda>c. v ! idx c) cols))"
    by (rule genWhere_refines) simp
  ultimately show ?thesis using True d by (simp add: genDeleteSQL_def)
next
  case False
  moreover from assms have "genWhere columns v = Inr (specClause '' AND '' columns v)"
    by (simp add: genWhere_refines)
  ultimately show ?thesis by (simp add: genDeleteSQL_def)
qed


section \<open>WHERE and SET clauses\<close>

lemma genKVs_eq: "genKVs cols = Join (map (\<lambda>c. ''`'' @ name c @ ''` = ?'') cols) '', ''"
proof (induction cols)
  case Nil
  then show ?case by simp
next
  case (Cons c cs)
  then show ?case by (cases cs) simp_all
qed

text \<open>
  Claim C7, as amended. \<open>genWhere\<close> writes, for every column list and every list of
  bound values that covers it, the clause with the operator IS exactly at the columns
  whose bound value is null and = at the others (and panics when a value is missing).
  \<open>genKVs\<close>, which builds the SET clause, is not given the values: it writes = at
  every column, also where the bound value is null.
\<close>

theorem where_is_null_set_equals:
  "(length cols \<le> length vals \<longrightarrow> genWhere cols vals = Inr (specClause '' AND '' cols vals))
   \<and> (length vals < length cols \<longrightarrow> genWhere cols vals = Inl IndexOutOfRange)
   \<and> genKVs cols = Join (map (\<lambda>c. ''`'' @ name c @ ''` = ?'') cols) '', ''"
  using genWhere_refines [of cols vals] genWhere_panics [of vals cols] genKVs_eq [of cols]
  by blast

theorem where_is_null_set_equals_witness:
  "length [colId, colName] \<le> length [VUint32 5, VNil :: unit val]
   \<and> genWhere [colId, colName] [VUint32 5, VNil :: unit val] = Inr ''`id` = ? AND `name` IS ?''
   \<and> length [VNil :: unit val] < length [colId, colName]
   \<and> genWhere [colId, colName] [VNil :: unit val] = Inl IndexOutOfRange
   \<and> genKVs [colId, colName] = ''`id` = ?, `name` = ?''"
proof -
  have s: "specClause '' AND '' [colId, colName] [VUint32 5, VNil :: unit val] = ''`id` = ? AND `name` IS ?''"
    by (simp add: specClause_def colId_def colName_def)
  have j: "Join (map (\<lambda>c. ''`'' @ name c @ ''` = ?'') [colId, colName]) '', '' = ''`id` = ?, `name` = ?''"
    by (simp add: colId_def colName_def)
  from where_is_null_set_equals [of "[colId, colName]" "[VUint32 5, VNil :: unit val]"] s
  have 1: "genWhere [colId, colName] [VUint32 5, VNil :: unit val] = Inr ''`id` = ? AND `name` IS ?''"
    by simp
  from where_is_null_set_equals [of "[colId, colName]" "[VNil :: unit val]"]
  have 2: "genWhere [colId, colName] [VNil :: unit val] = Inl IndexOutOfRange"
    by simp
  from where_is_null_set_equals [of "[colId, colName]" "[] :: unit val list"] j
  have 3: "genKVs [colId, colName] = ''`id` = ?, `name` = ?''"
    by simp
  from 1 2 3 show ?thesis by simp
qed

text \<open>
  Claim C7 as stated fails for the SET clause: for the column \<open>name\<close> bound to null
  the SET clause is \<open>`name` = ?\<close>, not \<open>`name` IS ?\<close>.
\<close>

theorem set_clause_never_is_counterexample:
  "genKVs [colName] = ''`name` = ?''
   \<and> specClause '', '' [colName] [VNil :: unit val] = ''`name` IS ?''
   \<and> genKVs [colName] \<noteq> specClause '', '' [colName] [VNil :: unit val]"
  by (simp add: specClause_def colName_def)


section \<open>What index selection returns\<close>

lemma getSpecifiedIndexColumn_Some:
  assumes "getSpecifiedIndexColumn m order fn = Inr (Some cols)"
  shows "cols \<noteq> [] \<and> cols \<in> ran m \<and> (\<forall>c\<in>set cols. fn c = Inr False)"
proof -
  from assms have "cols \<in> set (rangeMap m order) \<and> cols \<noteq> [] \<and> (\<forall>c\<in>set cols. fn c = Inr False)"
    unfolding getSpecifiedIndexColumn_def by (rule scanIndexes_Some)
  with set_rangeMap [of m order] show ?thesis by blast
qed

lemma findFitIndex_Some:
  assumes "findFitIndex m order = Inr (Some cols)"
  shows "cols \<noteq> [] \<and> cols \<in> ran m"
proof (cases "\<exists>p. m ''primary'' = Some p \<and> p \<noteq> []")
  case True
  with assms show ?thesis by (auto simp: findFitIndex_def ran_def)
next
  case False
  with assms have "getSpecifiedIndexColumn m order (\<lambda>c. Inr (\<not> NotNull c)) = Inr (Some cols)"
    by (auto simp: findFitIndex_def Let_def split: option.splits if_splits)
  from getSpecifiedIndexColumn_Some [OF this] show ?thesis by simp
qed

lemma getAvailableIndexColumn_Some:
  assumes "getAvailableIndexColumn m order data = Inr (Some cols)"
  shows "cols \<noteq> [] \<and> cols \<in> ran m \<and> (\<forall>c\<in>set cols. idx c < length data \<and> data ! idx c \<noteq> VNil)"
proof -
  from getSpecifiedIndexColumn_Some [OF assms [unfolded getAvailableIndexColumn_def]]
  show ?thesis by (auto split: if_splits)
qed

text \<open>
  Claim C9. An index that \<open>findFitIndex\<close> or \<open>getAvailableIndexColumn\<close> returns
  (a result other than \<open>nil\<close>) is a column list of the catalog with at least one
  column. A declared primary index without columns is not returned: the selection is then
  the one of the scan, which skips entries without columns. A DELETE built on a selected
  index binds one WHERE value per column of that index, hence at least one.
\<close>

theorem selected_index_never_empty:
  "(findFitIndex m order = Inr (Some cols) \<longrightarrow> cols \<noteq> [] \<and> cols \<in> ran m)
   \<and> (getAvailableIndexColumn m order data = Inr (Some cols) \<longrightarrow> cols \<noteq> [] \<and> cols \<in> ran m)
   \<and> (m ''primary'' = Some [] \<longrightarrow>
         findFitIndex m order = getSpecifiedIndexColumn m order (\<lambda>c. Inr (\<not> NotNull c))
         \<and> findFitIndex m order \<noteq> Inr (Some []))
   \<and> (\<forall>sql wv. (findFitIndex m order = Inr (Some cols) \<or> getAvailableIndexColumn m order data = Inr (Some cols))
         \<and> genDeleteSQL schema table v columns (Some cols) = Inr (sql, wv)
         \<longrightarrow> length wv = length cols \<and> 0 < length wv)"
proof -
  have 1: "findFitIndex m order = Inr (Some cols) \<longrightarrow> cols \<noteq> [] \<and> cols \<in> ran m"
    using findFitIndex_Some by blast
  have 2: "getAvailableIndexColumn m order data = Inr (Some cols) \<longrightarrow> cols \<noteq> [] \<and> cols \<in> ran m"
    using getAvailableIndexColumn_Some by blast
  have 3: "m ''primary'' = Some [] \<longrightarrow>
         findFitIndex m order = getSpecifiedIndexColumn m order (\<lambda>c. Inr (\<not> NotNull c))
         \<and> findFitIndex m order \<noteq> Inr (Some [])"
    using findFitIndex_Some [of m order "[]"] by (auto simp: findFitIndex_def)
  have 4: "length wv = length cols \<and> 0 < length wv"
    if s: "findFitIndex m order = Inr (Some cols) \<or> getAvailableIndexColumn m order data = Inr (Some cols)"
      and g: "genDeleteSQL schema table v columns (Some cols) = Inr (sql, wv)" for sql wv
  proof -
    from s 1 2 have ne: "cols \<noteq> []" by blast
    with g obtain wc where "getColumnData columns cols v = Inr (wc, wv)"
      by (auto simp: genDeleteSQL_def split: sum.splits prod.splits)
    from getColumnData_returns [OF this] ne show ?thesis by simp
  qed
  from 1 2 3 4 show ?thesis by blast
qed

theorem selected_index_never_empty_witness:
  "emptyPrimary ''primary'' = Some []
   \<and> findFitIndex emptyPrimary [''primary'', ''a''] = Inr (Some [colU])
   \<and> [colU] \<in> ran emptyPrimary
   \<and> findFitIndex emptyPrimary [''primary'', ''a''] \<noteq> Inr (Some [])
   \<and> genDeleteSQL ''db'' ''t'' [VInt32 7, VInt32 8 :: unit val] [colU, colV] (Some [colU])
        = Inr (''DELETE FROM `db`.`t` WHERE `u` = ? LIMIT 1;'', [VInt32 7])
   \<and> length [VInt32 7 :: unit val] = length [colU]"
proof -
  have p: "emptyPrimary ''primary'' = Some []"
    by (simp add: emptyPrimary_def)
  have f: "findFitIndex emptyPrimary [''primary'', ''a''] = Inr (Some [colU])"
    by code_simp
  have g: "genDeleteSQL ''db'' ''t'' [VInt32 7, VInt32 8 :: unit val] [colU, colV] (Some [colU])
        = Inr (''DELETE FROM `db`.`t` WHERE `u` = ? LIMIT 1;'', [VInt32 7])"
    by code_simp
  note t = selected_index_never_empty [of emptyPrimary "[''primary'', ''a'']" "[colU]"
      "[] :: unit val list" "''db''" "''t''" "[VInt32 7, VInt32 8 :: unit val]" "[colU, colV]"]
  from t f have 1: "[colU] \<in> ran emptyPrimary"
    by blast
  from t p have 2: "findFitIndex emptyPrimary [''primary'', ''a''] \<noteq> Inr (Some [])"
    by blast
  from t f g have 3: "length [VInt32 7 :: unit val] = length [colU]"
    by blast
  from p f g 1 2 3 show ?thesis by blast
qed

section \<open>Projections by ordinal position\<close>

text \<open>
  Claim C10. When every column of every declared index has an ordinal position below the
  length of the row, \<open>getColumnData\<close> on any declared index returns the index's
  columns with the row's values at their positions, and \<open>getAvailableIndexColumn\<close>
  and \<open>genMultipleKeys\<close> return: none of them reaches the out-of-range panic.
\<close>

theorem projections_stay_in_range:
  assumes "indexesWithin indexColumns (length data)"
  shows "(\<forall>cols\<in>ran indexColumns.
            getColumnData columns cols data = Inr (cols, map (\<lambda>c. data ! idx c) cols))
       \<and> (\<exists>r. getAvailableIndexColumn indexColumns order data = Inr r)
       \<and> (\<exists>ks. genMultipleKeys lib columns data indexColumns order = Inr ks)"
proof -
  have 1: "getColumnData columns cols data = Inr (cols, map (\<lambda>c. data ! idx c) cols)"
    if "cols \<in> ran indexColumns" for cols
    using that assms by (intro getColumnData_ok) (auto simp: indexesWithin_def ran_def)
  have 2: "\<exists>r. getAvailableIndexColumn indexColumns order data = Inr r"
    unfolding getAvailableIndexColumn_def getSpecifiedIndexColumn_def
    using assms by (intro scanIndexes_ok) (auto dest: rangeMap_within)
  from 1 2 genMultipleKeys_ok [OF assms] show ?thesis by blast
qed

theorem projections_stay_in_range_witness:
  "indexesWithin nullableAB (length [VInt32 1, VNil :: unit val])
   \<and> getColumnData [colA, colB] [colB] [VInt32 1, VNil :: unit val] = Inr ([colB], [VNil])
   \<and> getAvailableIndexColumn nullableAB [''a'', ''b''] [VInt32 1, VNil :: unit val] = Inr (Some [colA])
   \<and> genMultipleKeys exampleLib [colA, colB] [VInt32 1, VNil] nullableAB [''a'', ''b'']
        = Inr [''1'', ''null'']"
proof -
  have w: "indexesWithin nullableAB (length [VInt32 1, VNil :: unit val])"
    by (simp add: indexesWithin_def nullableAB_def colA_def colB_def)
  have b: "[colB] \<in> ran nullableAB"
    by (auto simp: nullableAB_def ran_def)
  have i: "idx colB = 1"
    by (simp add: colB_def)
  have a: "getAvailableIndexColumn nullableAB [''a'', ''b''] [VInt32 1, VNil :: unit val] = Inr (Some [colA])"
    by code_simp
  have k: "genMultipleKeys exampleLib [colA, colB] [VInt32 1, VNil] nullableAB [''a'', ''b'']
        = Inr [''1'', ''null'']"
    by code_simp
  from projections_stay_in_range [OF w, of "[colA, colB]" "[''a'', ''b'']" exampleLib] b i
  have "getColumnData [colA, colB] [colB] [VInt32 1, VNil :: unit val] = Inr ([colB], [VNil])"
    by fastforce
  with w a k show ?thesis by simp
qed

section \<open>Identity keys\<close>

text \<open>
  Claim C5. Whatever order the loop of \<open>genMultipleKeys\<close> visits the catalog in,
  a result it returns has exactly one key per declared index, and it does return when the
  index columns' positions lie within the row. The function takes no fit index: the keys
  do not depend on which index builds the statement.
\<close>

theorem genMultipleKeys_one_key_per_index:
  assumes "rangeOrder indexColumns order"
  shows "(\<forall>ks. genMultipleKeys lib columns v indexColumns order = Inr ks
            \<longrightarrow> length ks = card (dom indexColumns))
       \<and> (indexesWithin indexColumns (length v)
            \<longrightarrow> (\<exists>ks. genMultipleKeys lib columns v indexColumns order = Inr ks
                      \<and> length ks = card (dom indexColumns)))"
proof -
  have a: "length ks = card (dom indexColumns)"
    if "genMultipleKeys lib columns v indexColumns order = Inr ks" for ks
    using that assms by (simp add: genMultipleKeys_def genKeysLoop_length length_rangeMap)
  show ?thesis
    using a genMultipleKeys_ok [of indexColumns v lib columns order] by blast
qed

theorem genMultipleKeys_one_key_per_index_witness:
  "rangeOrder primaryId [''primary''] \<and> indexesWithin primaryId (length [VUint32 5, VString ''alice''])
   \<and> genMultipleKeys exampleLib [colId, colName] [VUint32 5, VString ''alice''] primaryId [''primary'']
       = Inr [''5'']
   \<and> card (dom primaryId) = 1"
proof -
  have r: "rangeOrder primaryId [''primary'']"
    by (simp add: rangeOrder_def primaryId_def)
  have w: "indexesWithin primaryId (length [VUint32 5 :: unit val, VString ''alice''])"
    by (simp add: indexesWithin_def primaryId_def colId_def)
  have e: "genMultipleKeys exampleLib [colId, colName] [VUint32 5, VString ''alice''] primaryId [''primary'']
       = Inr [''5'']"
    by code_simp
  from genMultipleKeys_one_key_per_index [OF r, of exampleLib "[colId, colName]" "[VUint32 5, VString ''alice'']"] e
  have "card (dom primaryId) = 1" by simp
  with r w e show ?thesis by simp
qed


section \<open>One pass of the update loop\<close>

lemma defaultWithin_None: "defaultWithin None n"
  by (simp add: defaultWithin_def)

lemma defaultWithin_ran: "indexesWithin m n \<Longrightarrow> cols \<in> ran m \<Longrightarrow> defaultWithin (Some cols) n"
  by (auto simp: indexesWithin_def defaultWithin_def ran_def)

lemma findFitIndex_ok:
  "\<exists>r. findFitIndex m order = Inr r"
proof -
  have "\<exists>r. getSpecifiedIndexColumn m order (\<lambda>c. Inr (\<not> NotNull c)) = Inr r"
    unfolding getSpecifiedIndexColumn_def by (rule scanIndexes_ok) simp
  then show ?thesis by (auto simp: findFitIndex_def Let_def split: option.splits)
qed

lemma findFitIndex_within:
  assumes "indexesWithin m n" and "findFitIndex m order = Inr r"
  shows "defaultWithin r n"
proof (cases r)
  case None
  then show ?thesis by (simp add: defaultWithin_None)
next
  case (Some cols)
  with assms(2) findFitIndex_Some have "cols \<in> ran m" by blast
  with assms(1) Some show ?thesis by (simp add: defaultWithin_ran)
qed

lemma fallbackIndex_ok:
  assumes "indexesWithin m (length v)" and "defaultWithin dflt (length v)"
  shows "\<exists>fit. fallbackIndex m order dflt v = Inr fit \<and> defaultWithin fit (length v)"
proof (cases "len dflt = 0")
  case True
  have "\<exists>r. getAvailableIndexColumn m order v = Inr r"
    unfolding getAvailableIndexColumn_def getSpecifiedIndexColumn_def
    using assms(1) by (intro scanIndexes_ok) (auto dest: rangeMap_within)
  then obtain r where r: "getAvailableIndexColumn m order v = Inr r" by blast
  have "defaultWithin r (length v)"
  proof (cases r)
    case None
    then show ?thesis by (simp add: defaultWithin_None)
  next
    case (Some cols)
    with r getAvailableIndexColumn_Some have "cols \<in> ran m" by blast
    with assms(1) Some show ?thesis by (simp add: defaultWithin_ran)
  qed
  with r True show ?thesis by (simp add: fallbackIndex_def)
next
  case False
  with assms(2) show ?thesis by (simp add: fallbackIndex_def)
qed

lemma updatePass_safe_eq:
  assumes wf: "indexesWithin indexColumns (length columns)"
    and df: "defaultWithin dflt (length columns)"
    and lo: "length oldData = length columns" and lc: "length changedData = length columns"
  shows "\<exists>fit ksOld ksNew.
      fallbackIndex indexColumns (rng ScanAvailable i) dflt (casted lib columns oldData) = Inr fit
    \<and> defaultWithin fit (length columns)
    \<and> genMultipleKeys lib columns (casted lib columns oldData) indexColumns (rng ScanKeys i) = Inr ksOld
    \<and> genMultipleKeys lib columns (casted lib columns changedData) indexColumns (rng ScanKeysChanged i)
        = Inr ksNew
    \<and> updatePass lib rng schema table columns indexColumns True i oldData changedData dflt =
        Inr (Next fit
          [(''DELETE FROM `'' @ schema @ ''`.`'' @ table @ ''` WHERE ''
              @ specClause '' AND '' (if len fit > 0 then the fit else columns)
                  (if len fit > 0 then map (\<lambda>c. casted lib columns oldData ! idx c) (the fit)
                   else casted lib columns oldData)
              @ '' LIMIT 1;'',
            ksOld @ ksNew,
            if len fit > 0 then map (\<lambda>c. casted lib columns oldData ! idx c) (the fit)
            else casted lib columns oldData),
           (replaceSQL schema table columns, ksOld @ ksNew, casted lib columns changedData)])"
proof -
  let ?ov = "casted lib columns oldData" and ?cv = "casted lib columns changedData"
  from lo lc have len: "length ?ov = length columns" "length ?cv = length columns"
    by (simp_all add: length_casted)
  from lo lc have c: "castRow lib columns oldData = Inr ?ov" "castRow lib columns changedData = Inr ?cv"
    by (simp_all add: castRow_ok)
  from fallbackIndex_ok [of indexColumns ?ov dflt "rng ScanAvailable i"] wf df len
  obtain fit where f: "fallbackIndex indexColumns (rng ScanAvailable i) dflt ?ov = Inr fit"
    and fw: "defaultWithin fit (length columns)" by auto
  from genMultipleKeys_ok [of indexColumns ?ov lib columns "rng ScanKeys i"] wf len
  obtain ksOld where k1: "genMultipleKeys lib columns ?ov indexColumns (rng ScanKeys i) = Inr ksOld"
    by auto
  from genMultipleKeys_ok [of indexColumns ?cv lib columns "rng ScanKeysChanged i"] wf len
  obtain ksNew where k2: "genMultipleKeys lib columns ?cv indexColumns (rng ScanKeysChanged i) = Inr ksNew"
    by auto
  from fw len have "defaultWithin fit (length ?ov)" by simp
  note d = genDeleteSQL_ok [OF this len(1), of schema table]
  have "updatePass lib rng schema table columns indexColumns True i oldData changedData dflt =
        Inr (Next fit
          [(''DELETE FROM `'' @ schema @ ''`.`'' @ table @ ''` WHERE ''
              @ specClause '' AND '' (if len fit > 0 then the fit else columns)
                  (if len fit > 0 then map (\<lambda>c. ?ov ! idx c) (the fit) else ?ov)
              @ '' LIMIT 1;'',
            ksOld @ ksNew,
            if len fit > 0 then map (\<lambda>c. ?ov ! idx c) (the fit) else ?ov),
           (replaceSQL schema table columns, ksOld @ ksNew, ?cv)])"
    unfolding updatePass_def using lo lc by (simp add: c f k1 k2 d Let_def)
  with f fw k1 k2 show ?thesis by blast
qed

lemma updatePass_unsafe_eq:
  assumes wf: "indexesWithin indexColumns (length columns)"
    and df: "defaultWithin dflt (length columns)"
    and lo: "length oldData = length columns" and lc: "length changedData = length columns"
    and ne: "columns \<noteq> []"
  shows "\<exists>fit ksOld ksNew.
      fallbackIndex indexColumns (rng ScanAvailable i) dflt (casted lib columns oldData) = Inr fit
    \<and> defaultWithin fit (length columns)
    \<and> genMultipleKeys lib columns (casted lib columns oldData) indexColumns (rng ScanKeys i) = Inr ksOld
    \<and> genMultipleKeys lib columns (casted lib columns changedData) indexColumns (rng ScanKeysChanged i)
        = Inr ksNew
    \<and> updatePass lib rng schema table columns indexColumns False i oldData changedData dflt =
        Inr (Next fit
          [(''UPDATE `'' @ schema @ ''`.`'' @ table @ ''` SET '' @ genKVs columns @ '' WHERE ''
              @ specClause '' AND '' (if len fit > 0 then the fit else columns)
                  (if len fit > 0 then map (\<lambda>c. casted lib columns oldData ! idx c) (the fit)
                   else casted lib columns oldData)
              @ '' LIMIT 1;'',
            ksOld @ ksNew,
            casted lib columns changedData
              @ (if len fit > 0 then map (\<lambda>c. casted lib columns oldData ! idx c) (the fit)
                 else casted lib columns oldData))])"
proof -
  let ?ov = "casted lib columns oldData" and ?cv = "casted lib columns changedData"
  from lo lc have len: "length ?ov = length columns" "length ?cv = length columns"
    by (simp_all add: length_casted)
  from lo lc have c: "castRow lib columns oldData = Inr ?ov" "castRow lib columns changedData = Inr ?cv"
    by (simp_all add: castRow_ok)
  from fallbackIndex_ok [of indexColumns ?ov dflt "rng ScanAvailable i"] wf df len
  obtain fit where f: "fallbackIndex indexColumns (rng ScanAvailable i) dflt ?ov = Inr fit"
    and fw: "defaultWithin fit (length columns)" by auto
  from genMultipleKeys_ok [of indexColumns ?ov lib columns "rng ScanKeys i"] wf len
  obtain ksOld where k1: "genMultipleKeys lib columns ?ov indexColumns (rng ScanKeys i) = Inr ksOld"
    by auto
  from genMultipleKeys_ok [of indexColumns ?cv lib columns "rng ScanKeysChanged i"] wf len
  obtain ksNew where k2: "genMultipleKeys lib columns ?cv indexColumns (rng ScanKeysChanged i) = Inr ksNew"
    by auto
  from len have u: "updateTargets columns ?cv ?ov = Inr (columns, ?cv)"
    by (simp add: updateTargets_ok)
  have w: "(if len fit > 0 then getColumnData columns (the fit) ?ov else Inr (columns, ?ov))
      = Inr (if len fit > 0 then the fit else columns,
             if len fit > 0 then map (\<lambda>c. ?ov ! idx c) (the fit) else ?ov)"
  proof (cases "len fit > 0")
    case True
    then obtain cols where "fit = Some cols" by (cases fit) auto
    with fw len show ?thesis by (simp add: getColumnData_ok defaultWithin_def)
  next
    case False
    then show ?thesis by simp
  qed
  have g: "genWhere (if len fit > 0 then the fit else columns)
             (if len fit > 0 then map (\<lambda>c. ?ov ! idx c) (the fit) else ?ov)
      = Inr (specClause '' AND '' (if len fit > 0 then the fit else columns)
               (if len fit > 0 then map (\<lambda>c. ?ov ! idx c) (the fit) else ?ov))"
    by (rule genWhere_refines) (simp add: len)
  have "updatePass lib rng schema table columns indexColumns False i oldData changedData dflt =
        Inr (Next fit
          [(''UPDATE `'' @ schema @ ''`.`'' @ table @ ''` SET '' @ genKVs columns @ '' WHERE ''
              @ specClause '' AND '' (if len fit > 0 then the fit else columns)
                  (if len fit > 0 then map (\<lambda>c. ?ov ! idx c) (the fit) else ?ov)
              @ '' LIMIT 1;'',
            ksOld @ ksNew,
            ?cv @ (if len fit > 0 then map (\<lambda>c. ?ov ! idx c) (the fit) else ?ov))])"
    unfolding updatePass_def using lo lc ne by (simp add: c f k1 k2 u w g Let_def del: genWhere.simps)
  with f fw k1 k2 show ?thesis by blast
qed

lemma updatePass_skip:
  assumes wf: "indexesWithin indexColumns (length columns)"
    and df: "defaultWithin dflt (length columns)"
    and lo: "length oldData = length columns" and lc: "length changedData = length columns"
    and em: "columns = []"
  shows "\<exists>fit. defaultWithin fit (length columns)
    \<and> updatePass lib rng schema table columns indexColumns False i oldData changedData dflt =
        Inr (Next fit [])"
proof -
  let ?ov = "casted lib columns oldData" and ?cv = "casted lib columns changedData"
  from lo lc have len: "length ?ov = length columns" "length ?cv = length columns"
    by (simp_all add: length_casted)
  from lo lc have c: "castRow lib columns oldData = Inr ?ov" "castRow lib columns changedData = Inr ?cv"
    by (simp_all add: castRow_ok)
  from fallbackIndex_ok [of indexColumns ?ov dflt "rng ScanAvailable i"] wf df len
  obtain fit where f: "fallbackIndex indexColumns (rng ScanAvailable i) dflt ?ov = Inr fit"
    and fw: "defaultWithin fit (length columns)" by auto
  from genMultipleKeys_ok [of indexColumns ?ov lib columns "rng ScanKeys i"] wf len
  obtain ksOld where k1: "genMultipleKeys lib columns ?ov indexColumns (rng ScanKeys i) = Inr ksOld"
    by auto
  from genMultipleKeys_ok [of indexColumns ?cv lib columns "rng ScanKeysChanged i"] wf len
  obtain ksNew where k2: "genMultipleKeys lib columns ?cv indexColumns (rng ScanKeysChanged i) = Inr ksNew"
    by auto
  from len have u: "updateTargets columns ?cv ?ov = Inr (columns, ?cv)"
    by (simp add: updateTargets_ok)
  have "updatePass lib rng schema table columns indexColumns False i oldData changedData dflt =
        Inr (Next fit [])"
    unfolding updatePass_def by (simp add: c f k1 k2 u Let_def lo lc) (simp add: em)
  with fw show ?thesis by blast
qed

lemma updatePass_ok:
  assumes wf: "indexesWithin indexColumns (length columns)"
    and df: "defaultWithin dflt (length columns)"
    and lo: "length oldData = length columns" and lc: "length changedData = length columns"
  shows "\<exists>fit out. updatePass lib rng schema table columns indexColumns safeMode i oldData changedData dflt
            = Inr (Next fit out)
          \<and> defaultWithin fit (length columns) \<and> length out = perPair safeMode columns"
proof (cases safeMode)
  case True
  from updatePass_safe_eq [OF wf df lo lc, of rng i lib schema table] True
  show ?thesis by (auto simp: perPair_def)
next
  case False
  show ?thesis
  proof (cases "columns = []")
    case True
    from updatePass_skip [OF wf df lo lc True, of lib rng schema table i] True \<open>\<not> safeMode\<close>
    show ?thesis by (auto simp: perPair_def)
  next
    case ne: False
    from updatePass_unsafe_eq [OF wf df lo lc ne, of rng i lib schema table] ne \<open>\<not> safeMode\<close>
    show ?thesis by (auto simp: perPair_def)
  qed
qed


lemma genUpdateLoop_mismatch:
  assumes wf: "indexesWithin indexColumns (length columns)"
  shows "defaultWithin dflt (length columns) \<Longrightarrow> \<exists>r\<in>set data. length r \<noteq> length columns
    \<Longrightarrow> even (length data)
    \<Longrightarrow> \<exists>e. genUpdateLoop lib rng schema table columns indexColumns safeMode i data dflt out
            = Inr (None, None, None, Some e) \<and> updateMismatch columns e"
proof (induction data arbitrary: i dflt out rule: induct_list012)
  case 1
  then show ?case by simp
next
  case (2 x)
  then show ?case by simp
next
  case (3 x y zs)
  show ?case
  proof (cases "length x = length columns \<and> length y = length columns")
    case True
    then have lx: "length x = length columns" and ly: "length y = length columns" by simp_all
    from updatePass_ok [OF wf 3(3) lx ly, of lib rng schema table safeMode i]
    obtain fit new where p: "updatePass lib rng schema table columns indexColumns safeMode i x y dflt
            = Inr (Next fit new)"
      and fw: "defaultWithin fit (length columns)" by blast
    from 3(4) True have rest: "\<exists>r\<in>set zs. length r \<noteq> length columns" by auto
    from 3(5) have ev: "even (length zs)" by simp
    from "3.IH"(1) [OF fw rest ev, of "i + 2" "out @ new"] p show ?thesis by simp
  next
    case False
    then have "updatePass lib rng schema table columns indexColumns safeMode i x y dflt
        = Inr (Abort (if length x \<noteq> length y then UpdateDataMismatch (length x) (length y)
                      else UpdateColumnsMismatch (length columns) (length x)))"
      by (auto simp: updatePass_def)
    with False show ?thesis by (auto simp: updateMismatch_def)
  qed
qed



section \<open>The examples of the spec\<close>

lemma example_hyps:
  "indexesWithin primaryId (length [colId, colName])"
  "defaultWithin (Some [colId]) (length [colId, colName])"
  "length rowAlice = length [colId, colName]"
  "length rowBob = length [colId, colName]"
  by (simp_all add: indexesWithin_def defaultWithin_def primaryId_def colId_def rowAlice_def rowBob_def)



section \<open>Updates in safe mode\<close>



section \<open>Updates outside safe mode\<close>



section \<open>Structural mismatch\<close>

lemma insertPass_ok:
  assumes wf: "indexesWithin indexColumns (length columns)"
    and l: "length data = length columns"
  shows "\<exists>ks. genMultipleKeys lib columns (casted lib columns data) indexColumns (rng ScanKeys i) = Inr ks
    \<and> insertPass lib rng schema table columns indexColumns i data
        = Inr (Next None [(replaceSQL schema table columns, ks, casted lib columns data)])"
proof -
  let ?v = "casted lib columns data"
  from l have len: "length ?v = length columns" by (simp add: length_casted)
  from l have c: "castRow lib columns data = Inr ?v" by (simp add: castRow_ok)
  from genMultipleKeys_ok [of indexColumns ?v lib columns "rng ScanKeys i"] wf len
  obtain ks where k: "genMultipleKeys lib columns ?v indexColumns (rng ScanKeys i) = Inr ks"
    by auto
  then show ?thesis by (simp add: insertPass_def l c)
qed

lemma genInsertLoop_mismatch:
  assumes wf: "indexesWithin indexColumns (length columns)"
  shows "\<exists>r\<in>set dataSeq. length r \<noteq> length columns
    \<Longrightarrow> \<exists>n. genInsertLoop lib rng schema table columns indexColumns i dataSeq out
            = Inr (None, None, None, Some (InsertMismatch (length columns) n))
          \<and> n \<noteq> length columns"
proof (induction dataSeq arbitrary: i out)
  case Nil
  then show ?case by simp
next
  case (Cons data rest)
  show ?case
  proof (cases "length data = length columns")
    case True
    from insertPass_ok [OF wf True, of lib rng i schema table]
    obtain ks where "insertPass lib rng schema table columns indexColumns i data
        = Inr (Next None [(replaceSQL schema table columns, ks, casted lib columns data)])" by blast
    moreover from Cons.prems True have "\<exists>r\<in>set rest. length r \<noteq> length columns" by auto
    from Cons.IH [OF this] have "\<exists>n. genInsertLoop lib rng schema table columns indexColumns (i + 1) rest
              (out @ [(replaceSQL schema table columns, ks, casted lib columns data)])
            = Inr (None, None, None, Some (InsertMismatch (length columns) n))
          \<and> n \<noteq> length columns" .
    ultimately show ?thesis by simp
  next
    case False
    then show ?thesis by (simp add: insertPass_def)
  qed
qed

lemma deletePass_ok:
  assumes wf: "indexesWithin indexColumns (length columns)"
    and df: "defaultWithin dflt (length columns)"
    and l: "length data = length columns"
  shows "\<exists>fit ks.
      fallbackIndex indexColumns (rng ScanAvailable i) dflt (casted lib columns data) = Inr fit
    \<and> defaultWithin fit (length columns)
    \<and> genMultipleKeys lib columns (casted lib columns data) indexColumns (rng ScanKeys i) = Inr ks
    \<and> deletePass lib rng schema table columns indexColumns i data dflt =
        Inr (Next fit
          [(''DELETE FROM `'' @ schema @ ''`.`'' @ table @ ''` WHERE ''
              @ specClause '' AND '' (if len fit > 0 then the fit else columns)
                  (if len fit > 0 then map (\<lambda>c. casted lib columns data ! idx c) (the fit)
                   else casted lib columns data)
              @ '' LIMIT 1;'',
            ks,
            if len fit > 0 then map (\<lambda>c. casted lib columns data ! idx c) (the fit)
            else casted lib columns data)])"
proof -
  let ?v = "casted lib columns data"
  from l have len: "length ?v = length columns" by (simp add: length_casted)
  from l have c: "castRow lib columns data = Inr ?v" by (simp add: castRow_ok)
  from fallbackIndex_ok [of indexColumns ?v dflt "rng ScanAvailable i"] wf df len
  obtain fit where f: "fallbackIndex indexColumns (rng ScanAvailable i) dflt ?v = Inr fit"
    and fw: "defaultWithin fit (length columns)" by auto
  from genMultipleKeys_ok [of indexColumns ?v lib columns "rng ScanKeys i"] wf len
  obtain ks where k: "genMultipleKeys lib columns ?v indexColumns (rng ScanKeys i) = Inr ks"
    by auto
  from fw len have "defaultWithin fit (length ?v)" by simp
  note d = genDeleteSQL_ok [OF this len, of schema table]
  have "deletePass lib rng schema table columns indexColumns i data dflt =
        Inr (Next fit
          [(''DELETE FROM `'' @ schema @ ''`.`'' @ table @ ''` WHERE ''
              @ specClause '' AND '' (if len fit > 0 then the fit else columns)
                  (if len fit > 0 then map (\<lambda>c. ?v ! idx c) (the fit) else ?v)
              @ '' LIMIT 1;'',
            ks,
            if len fit > 0 then map (\<lambda>c. ?v ! idx c) (the fit) else ?v)])"
    unfolding deletePass_def by (simp add: l c f k d)
  with f fw k show ?thesis by blast
qed

lemma genDeleteLoop_mismatch:
  assumes wf: "indexesWithin indexColumns (length columns)"
  shows "defaultWithin dflt (length columns) \<Longrightarrow> \<exists>r\<in>set dataSeq. length r \<noteq> length columns
    \<Longrightarrow> \<exists>n. genDeleteLoop lib rng schema table columns indexColumns i dataSeq dflt out
            = Inr (None, None, None, Some (DeleteMismatch (length columns) n))
          \<and> n \<noteq> length columns"
proof (induction dataSeq arbitrary: i dflt out)
  case Nil
  then show ?case by simp
next
  case (Cons data rest)
  show ?case
  proof (cases "length data = length columns")
    case True
    from deletePass_ok [OF wf Cons.prems(1) True, of rng i lib schema table]
    obtain fit t where p: "deletePass lib rng schema table columns indexColumns i data dflt
        = Inr (Next fit [t])" and fw: "defaultWithin fit (length columns)" by blast
    from Cons.prems True have "\<exists>r\<in>set rest. length r \<noteq> length columns" by auto
    from Cons.IH [OF fw this, of "i + 1" "out @ [t]"] p show ?thesis by simp
  next
    case False
    then show ?thesis by (simp add: deletePass_def)
  qed
qed

text \<open>
  Claim C6. When some row of the batch has a length other than the column count (a pair
  whose before and after lengths disagree has such a row), each generator returns the
  structural-mismatch error with \<open>nil\<close> statements, keys and values, whatever rows
  came before it. The catalog's index columns are columns of the table (positions below
  the column count), and an update batch is a sequence of pairs (its length is even).
\<close>

theorem mismatch_aborts_whole_batch:
  assumes wf: "indexesWithin indexColumns (length columns)"
    and bad: "\<exists>r\<in>set data. length r \<noteq> length columns"
  shows "(\<exists>n. genInsertSQLs lib rng schema table data columns indexColumns
              = Inr (None, None, None, Some (InsertMismatch (length columns) n))
            \<and> n \<noteq> length columns)
       \<and> (\<exists>n. genDeleteSQLs lib rng schema table data columns indexColumns
              = Inr (None, None, None, Some (DeleteMismatch (length columns) n))
            \<and> n \<noteq> length columns)
       \<and> (even (length data) \<longrightarrow>
            (\<exists>e. genUpdateSQLs lib rng schema table data columns indexColumns safeMode
                = Inr (None, None, None, Some e)
              \<and> updateMismatch columns e))"
proof -
  obtain d where d: "findFitIndex indexColumns (rng ScanFit 0) = Inr d"
    using findFitIndex_ok by blast
  with wf have dw: "defaultWithin d (length columns)" by (rule findFitIndex_within)
  have 1: "\<exists>n. genInsertSQLs lib rng schema table data columns indexColumns
              = Inr (None, None, None, Some (InsertMismatch (length columns) n))
            \<and> n \<noteq> length columns"
    unfolding genInsertSQLs_def by (rule genInsertLoop_mismatch [OF wf bad])
  have 2: "\<exists>n. genDeleteSQLs lib rng schema table data columns indexColumns
              = Inr (None, None, None, Some (DeleteMismatch (length columns) n))
            \<and> n \<noteq> length columns"
    using genDeleteLoop_mismatch [OF wf dw bad, of lib rng schema table 0 "[]"] d
    by (simp add: genDeleteSQLs_def)
  have 3: "\<exists>e. genUpdateSQLs lib rng schema table data columns indexColumns safeMode
                = Inr (None, None, None, Some e) \<and> updateMismatch columns e"
    if "even (length data)"
    using genUpdateLoop_mismatch [OF wf dw bad that, of lib rng schema table safeMode 0 "[]"] d
    by (simp add: genUpdateSQLs_def)
  from 1 2 3 show ?thesis by blast
qed

theorem mismatch_aborts_whole_batch_witness:
  "indexesWithin primaryId (length [colId, colName])
   \<and> rowShort \<in> set [rowAlice, rowShort] \<and> length rowShort \<noteq> length [colId, colName]
   \<and> even (length [rowAlice, rowShort])
   \<and> genInsertSQLs exampleLib (always [''primary'']) ''db'' ''t'' [rowAlice, rowShort] [colId, colName]
        primaryId = Inr (None, None, None, Some (InsertMismatch 2 1))
   \<and> genDeleteSQLs exampleLib (always [''primary'']) ''db'' ''t'' [rowAlice, rowShort] [colId, colName]
        primaryId = Inr (None, None, None, Some (DeleteMismatch 2 1))
   \<and> genUpdateSQLs exampleLib (always [''primary'']) ''db'' ''t'' [rowAlice, rowShort] [colId, colName]
        primaryId True = Inr (None, None, None, Some (UpdateDataMismatch 2 1))
   \<and> updateMismatch [colId, colName] (UpdateDataMismatch 2 1)"
proof -
  have w: "indexesWithin primaryId (length [colId, colName])"
    by (rule example_hyps)
  have b: "\<exists>r\<in>set [rowAlice, rowShort]. length r \<noteq> length [colId, colName]"
    by (simp add: rowShort_def)
  have e: "even (length [rowAlice, rowShort])"
    by simp
  have i: "genInsertSQLs exampleLib (always [''primary'']) ''db'' ''t'' [rowAlice, rowShort]
        [colId, colName] primaryId = Inr (None, None, None, Some (InsertMismatch 2 1))"
    by code_simp
  have d: "genDeleteSQLs exampleLib (always [''primary'']) ''db'' ''t'' [rowAlice, rowShort]
        [colId, colName] primaryId = Inr (None, None, None, Some (DeleteMismatch 2 1))"
    by code_simp
  have u: "genUpdateSQLs exampleLib (always [''primary'']) ''db'' ''t'' [rowAlice, rowShort]
        [colId, colName] primaryId True = Inr (None, None, None, Some (UpdateDataMismatch 2 1))"
    by code_simp
  from mismatch_aborts_whole_batch [OF w b, of exampleLib "always [''primary'']" "''db''" "''t''" True]
    e u
  have m: "updateMismatch [colId, colName] (UpdateDataMismatch 2 1)"
    by auto
  from w e i d u m show ?thesis by (simp add: rowShort_def)
qed

section \<open>The order of the scan\<close>

lemma scanIndexes_None:
  "scanIndexes fn css = Inr None \<Longrightarrow> cols \<in> set css \<Longrightarrow> cols \<noteq> []
   \<Longrightarrow> \<not> (\<forall>c\<in>set cols. fn c = Inr False)"
proof (induction css)
  case Nil
  then show ?case by simp
next
  case (Cons x css)
  show ?case
  proof (cases "cols = x")
    case True
    with Cons.prems(1,3) have "checkIndexCols fn x \<noteq> Inr True"
      by (auto split: sum.splits if_splits)
    with True show ?thesis by (simp add: checkIndexCols_True)
  next
    case False
    with Cons.prems have "cols \<in> set css" by simp
    moreover from Cons.prems(1) have "scanIndexes fn css = Inr None"
      by (auto split: sum.splits if_splits)
    ultimately show ?thesis using Cons.IH Cons.prems(3) by blast
  qed
qed

lemma getSpecifiedIndexColumn_unique:
  assumes r1: "rangeOrder m ks" and r2: "rangeOrder m ks'"
    and total: "\<forall>cols\<in>ran m. \<forall>c\<in>set cols. \<exists>b. fn c = Inr b"
    and uniq: "\<forall>a\<in>ran m. \<forall>b\<in>ran m. a \<noteq> [] \<and> b \<noteq> [] \<and> (\<forall>c\<in>set a. fn c = Inr False)
                 \<and> (\<forall>c\<in>set b. fn c = Inr False) \<longrightarrow> a = b"
  shows "getSpecifiedIndexColumn m ks fn = getSpecifiedIndexColumn m ks' fn"
proof -
  have s1: "set (rangeMap m ks) = ran m" and s2: "set (rangeMap m ks') = ran m"
    using r1 r2 by (simp_all add: ran_rangeMap)
  from total s1 have "\<exists>r. scanIndexes fn (rangeMap m ks) = Inr r"
    by (intro scanIndexes_ok) simp
  then obtain r where r: "scanIndexes fn (rangeMap m ks) = Inr r" by blast
  from total s2 have "\<exists>r. scanIndexes fn (rangeMap m ks') = Inr r"
    by (intro scanIndexes_ok) simp
  then obtain r' where r': "scanIndexes fn (rangeMap m ks') = Inr r'" by blast
  have "r = r'"
  proof (cases r)
    case None
    show ?thesis
    proof (cases r')
      case (Some b)
      with r' have "b \<in> set (rangeMap m ks') \<and> b \<noteq> [] \<and> (\<forall>c\<in>set b. fn c = Inr False)"
        by (simp add: scanIndexes_Some)
      with s1 s2 have "b \<in> set (rangeMap m ks)" "b \<noteq> []" "\<forall>c\<in>set b. fn c = Inr False"
        by simp_all
      with scanIndexes_None [of fn "rangeMap m ks" b] r None show ?thesis by blast
    qed (simp add: None)
  next
    case (Some a)
    with r have a: "a \<in> set (rangeMap m ks) \<and> a \<noteq> [] \<and> (\<forall>c\<in>set a. fn c = Inr False)"
      by (simp add: scanIndexes_Some)
    show ?thesis
    proof (cases r')
      case None
      from a s1 s2 have "a \<in> set (rangeMap m ks')" "a \<noteq> []" "\<forall>c\<in>set a. fn c = Inr False"
        by simp_all
      with scanIndexes_None [of fn "rangeMap m ks'" a] r' None show ?thesis by blast
    next
      case b: (Some b)
      with r' have "b \<in> set (rangeMap m ks') \<and> b \<noteq> [] \<and> (\<forall>c\<in>set b. fn c = Inr False)"
        by (simp add: scanIndexes_Some)
      with a s1 s2 uniq have "a = b" by blast
      with Some b show ?thesis by simp
    qed
  qed
  with r r' show ?thesis by (simp add: getSpecifiedIndexColumn_def)
qed

lemma example_rans:
  "ran emptyPrimary = {[], [colU]}" "ran nullableAB = {[colA], [colB]}"
  by (auto simp: emptyPrimary_def nullableAB_def)

text \<open>
  Claim C8, as amended. The scan of \<open>getSpecifiedIndexColumn\<close> follows the order of
  Go's \<open>range\<close> over the catalog, which the language does not fix. For any two such
  orders: a declared primary index with columns is what \<open>findFitIndex\<close> returns under
  both; and when at most one index with columns qualifies (all columns declared not-null
  for \<open>findFitIndex\<close>, all columns non-null in the row for
  \<open>getAvailableIndexColumn\<close>), both orders give the same result.
\<close>

theorem selection_up_to_visiting_order:
  assumes r1: "rangeOrder m ks" and r2: "rangeOrder m ks'"
  shows "(\<forall>cols. m ''primary'' = Some cols \<and> cols \<noteq> [] \<longrightarrow>
            findFitIndex m ks = Inr (Some cols) \<and> findFitIndex m ks' = Inr (Some cols))
       \<and> ((\<forall>a\<in>ran m. \<forall>b\<in>ran m. a \<noteq> [] \<and> b \<noteq> [] \<and> (\<forall>c\<in>set a. NotNull c)
                \<and> (\<forall>c\<in>set b. NotNull c) \<longrightarrow> a = b)
            \<longrightarrow> findFitIndex m ks = findFitIndex m ks')
       \<and> (indexesWithin m (length data)
            \<and> (\<forall>a\<in>ran m. \<forall>b\<in>ran m. a \<noteq> [] \<and> b \<noteq> [] \<and> (\<forall>c\<in>set a. data ! idx c \<noteq> VNil)
                \<and> (\<forall>c\<in>set b. data ! idx c \<noteq> VNil) \<longrightarrow> a = b)
            \<longrightarrow> getAvailableIndexColumn m ks data = getAvailableIndexColumn m ks' data)"
proof -
  have 1: "findFitIndex m ks = Inr (Some cols) \<and> findFitIndex m ks' = Inr (Some cols)"
    if "m ''primary'' = Some cols \<and> cols \<noteq> []" for cols
    using that by (simp add: findFitIndex_def)
  have 2: "findFitIndex m ks = findFitIndex m ks'"
    if u: "\<forall>a\<in>ran m. \<forall>b\<in>ran m. a \<noteq> [] \<and> b \<noteq> [] \<and> (\<forall>c\<in>set a. NotNull c)
                \<and> (\<forall>c\<in>set b. NotNull c) \<longrightarrow> a = b"
  proof -
    have "getSpecifiedIndexColumn m ks (\<lambda>c. Inr (\<not> NotNull c))
        = getSpecifiedIndexColumn m ks' (\<lambda>c. Inr (\<not> NotNull c))"
      using u by (intro getSpecifiedIndexColumn_unique [OF r1 r2]) auto
    then show ?thesis by (simp add: findFitIndex_def)
  qed
  have 3: "getAvailableIndexColumn m ks data = getAvailableIndexColumn m ks' data"
    if w: "indexesWithin m (length data)"
      and u: "\<forall>a\<in>ran m. \<forall>b\<in>ran m. a \<noteq> [] \<and> b \<noteq> [] \<and> (\<forall>c\<in>set a. data ! idx c \<noteq> VNil)
                \<and> (\<forall>c\<in>set b. data ! idx c \<noteq> VNil) \<longrightarrow> a = b"
  proof -
    from w have i: "idx c < length data" if "cols \<in> ran m" "c \<in> set cols" for cols c
      using that by (auto simp: indexesWithin_def ran_def)
    show ?thesis
      unfolding getAvailableIndexColumn_def
    proof (rule getSpecifiedIndexColumn_unique [OF r1 r2])
      show "\<forall>cols\<in>ran m. \<forall>c\<in>set cols.
          \<exists>b. (if idx c < length data then Inr (data ! idx c = VNil) else Inl IndexOutOfRange) = Inr b"
        using i by auto
      show "\<forall>a\<in>ran m. \<forall>b\<in>ran m. a \<noteq> [] \<and> b \<noteq> []
          \<and> (\<forall>c\<in>set a. (if idx c < length data then Inr (data ! idx c = VNil) else Inl IndexOutOfRange) = Inr False)
          \<and> (\<forall>c\<in>set b. (if idx c < length data then Inr (data ! idx c = VNil) else Inl IndexOutOfRange) = Inr False)
          \<longrightarrow> a = b"
      proof (intro ballI impI)
        fix a b assume a: "a \<in> ran m" and b: "b \<in> ran m"
          and q: "a \<noteq> [] \<and> b \<noteq> []
          \<and> (\<forall>c\<in>set a. (if idx c < length data then Inr (data ! idx c = VNil) else Inl IndexOutOfRange) = Inr False)
          \<and> (\<forall>c\<in>set b. (if idx c < length data then Inr (data ! idx c = VNil) else Inl IndexOutOfRange) = Inr False)"
        from q i [OF a] have "\<forall>c\<in>set a. data ! idx c \<noteq> VNil" by auto
        moreover from q i [OF b] have "\<forall>c\<in>set b. data ! idx c \<noteq> VNil" by auto
        ultimately show "a = b" using u a b q by blast
      qed
    qed
  qed
  from 1 2 3 show ?thesis by blast
qed

theorem selection_up_to_visiting_order_witness:
  "rangeOrder emptyPrimary [''primary'', ''a''] \<and> rangeOrder emptyPrimary [''a'', ''primary'']
   \<and> findFitIndex emptyPrimary [''primary'', ''a''] = findFitIndex emptyPrimary [''a'', ''primary'']
   \<and> rangeOrder nullableAB [''a'', ''b''] \<and> rangeOrder nullableAB [''b'', ''a'']
   \<and> indexesWithin nullableAB (length rowOnlyA)
   \<and> getAvailableIndexColumn nullableAB [''a'', ''b''] rowOnlyA
       = getAvailableIndexColumn nullableAB [''b'', ''a''] rowOnlyA
   \<and> rangeOrder primaryId [''primary''] \<and> primaryId ''primary'' = Some [colId]
   \<and> findFitIndex primaryId [''primary''] = Inr (Some [colId])"
proof -
  have r: "rangeOrder emptyPrimary [''primary'', ''a'']" "rangeOrder emptyPrimary [''a'', ''primary'']"
    "rangeOrder nullableAB [''a'', ''b'']" "rangeOrder nullableAB [''b'', ''a'']"
    "rangeOrder primaryId [''primary'']"
    by (auto simp: rangeOrder_def emptyPrimary_def nullableAB_def primaryId_def)
  have u1: "\<forall>a\<in>ran emptyPrimary. \<forall>b\<in>ran emptyPrimary. a \<noteq> [] \<and> b \<noteq> [] \<and> (\<forall>c\<in>set a. NotNull c)
                \<and> (\<forall>c\<in>set b. NotNull c) \<longrightarrow> a = b"
    by (simp add: example_rans)
  have w: "indexesWithin nullableAB (length rowOnlyA)"
    by (simp add: indexesWithin_def nullableAB_def colA_def colB_def rowOnlyA_def)
  have u2: "\<forall>a\<in>ran nullableAB. \<forall>b\<in>ran nullableAB. a \<noteq> [] \<and> b \<noteq> []
                \<and> (\<forall>c\<in>set a. rowOnlyA ! idx c \<noteq> VNil)
                \<and> (\<forall>c\<in>set b. rowOnlyA ! idx c \<noteq> VNil) \<longrightarrow> a = b"
    by (simp add: example_rans colA_def colB_def rowOnlyA_def)
  have p: "primaryId ''primary'' = Some [colId] \<and> [colId] \<noteq> []"
    by (simp add: primaryId_def)
  note t1 = selection_up_to_visiting_order [OF r(1) r(2), of "[] :: unit val list"]
  note t2 = selection_up_to_visiting_order [OF r(3) r(4), of rowOnlyA]
  note t3 = selection_up_to_visiting_order [OF r(5) r(5), of "[] :: unit val list"]
  have 1: "findFitIndex emptyPrimary [''primary'', ''a''] = findFitIndex emptyPrimary [''a'', ''primary'']"
    by (rule t1 [THEN conjunct2, THEN conjunct1, THEN mp, OF u1])
  have 2: "getAvailableIndexColumn nullableAB [''a'', ''b''] rowOnlyA
       = getAvailableIndexColumn nullableAB [''b'', ''a''] rowOnlyA"
    by (rule t2 [THEN conjunct2, THEN conjunct2, THEN mp, OF conjI [OF w u2]])
  have 3: "findFitIndex primaryId [''primary''] = Inr (Some [colId])"
    using t3 [THEN conjunct1, THEN spec, THEN mp, OF p] by simp
  from r w p 1 2 3 show ?thesis by simp
qed

text \<open>
  Claim C8 as stated fails: with two qualifying indexes the result follows the order of
  the scan. Both orders below visit every key of the catalog once, and they select
  different indexes, for the schema-fit and for the row-available selection.
\<close>

theorem selection_depends_on_order_counterexample:
  "rangeOrder notNullUV [''a'', ''b''] \<and> rangeOrder notNullUV [''b'', ''a'']
   \<and> findFitIndex notNullUV [''a'', ''b''] = Inr (Some [colU])
   \<and> findFitIndex notNullUV [''b'', ''a''] = Inr (Some [colV])
   \<and> findFitIndex notNullUV [''a'', ''b''] \<noteq> findFitIndex notNullUV [''b'', ''a'']
   \<and> rangeOrder nullableAB [''a'', ''b''] \<and> rangeOrder nullableAB [''b'', ''a'']
   \<and> getAvailableIndexColumn nullableAB [''a'', ''b''] rowBoth = Inr (Some [colA])
   \<and> getAvailableIndexColumn nullableAB [''b'', ''a''] rowBoth = Inr (Some [colB])
   \<and> getAvailableIndexColumn nullableAB [''a'', ''b''] rowBoth
       \<noteq> getAvailableIndexColumn nullableAB [''b'', ''a''] rowBoth"
proof -
  have r: "rangeOrder notNullUV [''a'', ''b'']" "rangeOrder notNullUV [''b'', ''a'']"
    "rangeOrder nullableAB [''a'', ''b'']" "rangeOrder nullableAB [''b'', ''a'']"
    by (auto simp: rangeOrder_def notNullUV_def nullableAB_def)
  have f: "findFitIndex notNullUV [''a'', ''b''] = Inr (Some [colU])"
    "findFitIndex notNullUV [''b'', ''a''] = Inr (Some [colV])"
    by code_simp+
  have g: "getAvailableIndexColumn nullableAB [''a'', ''b''] rowBoth = Inr (Some [colA])"
    "getAvailableIndexColumn nullableAB [''b'', ''a''] rowBoth = Inr (Some [colB])"
    by code_simp+
  have n: "colU \<noteq> colV" "colA \<noteq> colB"
    by (simp_all add: colU_def colV_def colA_def colB_def)
  from r f g n show ?thesis by simp
qed

section \<open>The fallback index across the rows of a batch\<close>

text \<open>
  Claim C4 does not hold of the code. The fallback assigns to \<open>defaultIndexColumns\<close>,
  the variable declared before the batch loop, so the index found for one row is kept for
  the rows after it. In the batch below no index is schema-fit; the first row has a value
  only in \<open>a\<close>, the second only in \<open>b\<close>. For the second row the index \<open>b\<close>
  is row-available, yet its statement is keyed by \<open>a\<close>, whose value in that row is
  null: \<open>WHERE `a` IS ?\<close>, in the delete and in the update generator, in either
  order of the scan.
\<close>

theorem fallback_index_is_kept_for_later_rows:
  "findFitIndex nullableAB [''a'', ''b''] = Inr None
   \<and> getAvailableIndexColumn nullableAB [''a'', ''b''] rowOnlyA = Inr (Some [colA])
   \<and> getAvailableIndexColumn nullableAB [''a'', ''b''] rowOnlyB = Inr (Some [colB])
   \<and> genDeleteSQLs exampleLib (always [''a'', ''b'']) ''db'' ''t'' [rowOnlyA, rowOnlyB] [colA, colB]
        nullableAB
      = Inr (Some [''DELETE FROM `db`.`t` WHERE `a` = ? LIMIT 1;'',
                   ''DELETE FROM `db`.`t` WHERE `a` IS ? LIMIT 1;''],
             Some [[''1'', ''null''], [''null'', ''2'']],
             Some [[VInt32 1], [VNil]], None)
   \<and> genDeleteSQLs exampleLib (always [''b'', ''a'']) ''db'' ''t'' [rowOnlyA, rowOnlyB] [colA, colB]
        nullableAB
      = Inr (Some [''DELETE FROM `db`.`t` WHERE `a` = ? LIMIT 1;'',
                   ''DELETE FROM `db`.`t` WHERE `a` IS ? LIMIT 1;''],
             Some [[''null'', ''1''], [''2'', ''null'']],
             Some [[VInt32 1], [VNil]], None)
   \<and> genUpdateSQLs exampleLib (always [''a'', ''b'']) ''db'' ''t''
        [rowOnlyA, rowOnlyA, rowOnlyB, rowOnlyB] [colA, colB] nullableAB False
      = Inr (Some [''UPDATE `db`.`t` SET `a` = ?, `b` = ? WHERE `a` = ? LIMIT 1;'',
                   ''UPDATE `db`.`t` SET `a` = ?, `b` = ? WHERE `a` IS ? LIMIT 1;''],
             Some [[''1'', ''null'', ''1'', ''null''], [''null'', ''2'', ''null'', ''2'']],
             Some [[VInt32 1, VNil, VInt32 1], [VNil, VInt32 2, VNil]], None)"
  by code_simp

end
